theory Spec2Isabelle
  imports Main "HOL-Library.Char_ord" "HOL-Library.List_Lexorder"
begin

section \<open>JavaScript values and ordinary objects\<close>

text \<open>
  The components under verification work on JSON-like values: index definitions, settings,
  aliases and mappings are nested objects that are spread, merged and enumerated. The
  model keeps what these operations observe of an object: its own enumerable properties
  and the order in which the language enumerates them. An array is an object of kind
  \<open>ArrayObject\<close> whose properties are its elements under the keys \<open>0\<close>, \<open>1\<close>, \dots;
  numbers are restricted to integers, which is all the claims below look at.
\<close>

datatype okind = PlainObject | ArrayObject

datatype json =
    JUndefined
  | JNull
  | JBool bool
  | JNum int
  | JStr string
  | JObj okind "(string \<times> json) list"

type_synonym obj = "(string \<times> json) list"

text \<open>
  Property keys that are array indices (the canonical decimal numeral of an integer from
  \<open>0\<close> to \<open>2\<^sup>3\<^sup>2 - 2\<close>) are enumerated first, in ascending numeric order; all other
  string keys follow in the order in which they were created. \<open>Object.keys\<close>,
  \<open>Object.entries\<close>, object spread and \<open>JSON.stringify\<close> all use this order.
\<close>

definition is_digit :: "char \<Rightarrow> bool" where
  "is_digit c \<longleftrightarrow> CHR ''0'' \<le> c \<and> c \<le> CHR ''9''"

definition digit_val :: "char \<Rightarrow> nat" where
  "digit_val c = of_char c - 48"

definition decimal :: "string \<Rightarrow> nat" where
  "decimal s = foldl (\<lambda>n c. 10 * n + digit_val c) 0 s"

definition is_array_index :: "string \<Rightarrow> bool" where
  "is_array_index s \<longleftrightarrow>
     s \<noteq> [] \<and> list_all is_digit s \<and> (s = ''0'' \<or> hd s \<noteq> CHR ''0'') \<and>
     decimal s < 4294967295"

text \<open>
  Creating a property whose key is an array index places it among the index keys by
  numeric value; any other new key goes to the end.
\<close>

fun ins_index :: "string \<Rightarrow> 'v \<Rightarrow> (string \<times> 'v) list \<Rightarrow> (string \<times> 'v) list" where
  "ins_index k v [] = [(k, v)]"
| "ins_index k v ((k', v') # es) =
     (if is_array_index k' \<and> decimal k' < decimal k then (k', v') # ins_index k v es
      else (k, v) # (k', v') # es)"

text \<open>
  \<open>put k v o\<close> is the assignment \<open>o[k] = v\<close> on an ordinary object (also what an object
  literal does for each of its properties): an existing property keeps its place and
  takes the new value, a new one is created.
\<close>

definition put :: "string \<Rightarrow> 'v \<Rightarrow> (string \<times> 'v) list \<Rightarrow> (string \<times> 'v) list" where
  "put k v es =
     (if k \<in> set (map fst es) then map (\<lambda>(k', v'). (k', if k' = k then v else v')) es
      else if is_array_index k then ins_index k v es
      else es @ [(k, v)])"

text \<open>
  The representation invariant of an object: no key occurs twice, the array-index keys
  come first and ascend numerically. Every object of the running program satisfies it;
  \<open>put\<close> maintains it (lemma \<open>put_wf\<close>).
\<close>

fun own_key_order :: "string list \<Rightarrow> bool" where
  "own_key_order [] = True"
| "own_key_order (k # ks) =
     (k \<notin> set ks \<and> own_key_order ks \<and>
      (if is_array_index k then (\<forall>k' \<in> set ks. is_array_index k' \<longrightarrow> decimal k < decimal k')
       else (\<forall>k' \<in> set ks. \<not> is_array_index k')))"

definition wf_obj :: "(string \<times> 'v) list \<Rightarrow> bool" where
  "wf_obj es = own_key_order (map fst es)"

text \<open>Reading a property: \<open>undefined\<close> when the object has no such property.\<close>

definition get_own :: "obj \<Rightarrow> string \<Rightarrow> json" where
  "get_own es k = (case map_of es k of None \<Rightarrow> JUndefined | Some v \<Rightarrow> v)"

text \<open>
  Object spread \<open>{...src}\<close> into an object under construction: the own properties of
  \<open>src\<close> are copied one by one in enumeration order.
\<close>

definition spread_into :: "(string \<times> 'v) list \<Rightarrow> (string \<times> 'v) list \<Rightarrow> (string \<times> 'v) list" where
  "spread_into target src = foldl (\<lambda>total (k, v). put k v total) target src"

text \<open>
  \<open>Array.prototype.sort\<close> with a comparator, as an insertion sort that places an element
  before the first one it compares below. The entries sorted in this development have
  pairwise different keys, so the comparator never meets two equal keys and every correct
  sorting procedure returns the same array.
\<close>

fun insert_by :: "('a \<Rightarrow> 'a \<Rightarrow> int) \<Rightarrow> 'a \<Rightarrow> 'a list \<Rightarrow> 'a list" where
  "insert_by cmp x [] = [x]"
| "insert_by cmp x (y # ys) = (if cmp x y < 0 then x # y # ys else y # insert_by cmp x ys)"

definition sort_by :: "('a \<Rightarrow> 'a \<Rightarrow> int) \<Rightarrow> 'a list \<Rightarrow> 'a list" where
  "sort_by cmp xs = foldr (insert_by cmp) xs []"

text \<open>
  A set built from an array, read back as an array (\<open>[...new Set(xs)]\<close>): the distinct
  elements in the order of their first occurrence.
\<close>

definition new_Set :: "'a list \<Rightarrow> 'a list" where
  "new_Set xs = foldl (\<lambda>s x. if x \<in> set s then s else s @ [x]) [] xs"

text \<open>
  The answer of a backend call, \<open>ServerResponse<T>\<close>: either \<open>{ok: true, response}\<close> or
  \<open>{ok: false, error}\<close>.
\<close>

datatype 'a server_response = Ok 'a | Failed string

section \<open>AliasSelect\<close>

text \<open>
  \<open>AliasSelect\<close> keeps its value as a map from alias name to the empty object and shows it
  as an array of labels.
  \<^verbatim>\<open>
  const transformObjToArray = (obj) => Object.keys(obj || {}).map((label) => ({ label }));
  const transformArrayToObj = (array) =>
    array.reduce((total, current) => ({ ...total, [current.label]: {} }), {});
  \<close>
  The value is optional: \<open>None\<close> is \<open>undefined\<close>.
\<close>

record label_item =
  label :: string

definition transformObjToArray :: "obj option \<Rightarrow> label_item list" where
  "transformObjToArray obj =
     map (\<lambda>l. \<lparr>label = l\<rparr>) (map fst (case obj of None \<Rightarrow> [] | Some es \<Rightarrow> es))"

definition transformArrayToObj :: "label_item list \<Rightarrow> obj" where
  "transformArrayToObj array =
     foldl (\<lambda>total current. put (label current) (JObj PlainObject []) (spread_into [] total)) [] array"

text \<open>
  \<open>refreshOptions\<close> asks the backend for aliases and prepares the answer for the combo box.
  \<^verbatim>\<open>
  return refreshOptionsFromProps(searchValue || "").then((res) => {
    if (res.ok) {
      return { ...res,
        response: [...new Set(res.response.map((item) => item.alias)
                     .filter((item) => !filterByMinimatch(item, SYSTEM_ALIAS)))]
                   .map((item) => ({ label: item })) };
    } else { return res; }
  });
  \<close>
  \<open>filterByMinimatch\<close> and the pattern list \<open>SYSTEM_ALIAS\<close> live in the plugin's utilities and
  are parameters here. The backend's items are \<open>{alias: string}\<close>.
\<close>

record alias_item =
  alias_name :: string

definition refreshOptions ::
  "(string \<Rightarrow> 'p \<Rightarrow> bool) \<Rightarrow> 'p \<Rightarrow> (string \<Rightarrow> alias_item list server_response) \<Rightarrow>
   string option \<Rightarrow> label_item list server_response" where
  "refreshOptions filterByMinimatch SYSTEM_ALIAS refreshOptionsFromProps searchValue =
     (case refreshOptionsFromProps (case searchValue of None \<Rightarrow> '''' | Some s \<Rightarrow> s) of
        Ok response \<Rightarrow>
          Ok (map (\<lambda>item. \<lparr>label = item\<rparr>)
                (new_Set (filter (\<lambda>item. \<not> filterByMinimatch item SYSTEM_ALIAS)
                            (map alias_name response))))
      | Failed e \<Rightarrow> Failed e)"

section \<open>IndexDetail: ordered settings for the diff editor\<close>

text \<open>
  \<^verbatim>\<open>
  const getOrderedJson = (json: Record<string, any>) => {
    const entries = Object.entries(json);
    entries.sort((a, b) => (a[0] < b[0] ? -1 : 1));
    return entries.reduce((total, [key, value]) => ({ ...total, [key]: value }), {});
  };
  \<close>
  Strings compare by code unit, shorter prefixes first, which is the lexicographic order
  on \<open>string\<close>.
\<close>

definition compare_keys :: "string \<times> 'v \<Rightarrow> string \<times> 'v \<Rightarrow> int" where
  "compare_keys a b = (if fst a < fst b then - 1 else 1)"

definition getOrderedJson :: "(string \<times> 'v) list \<Rightarrow> (string \<times> 'v) list" where
  "getOrderedJson json =
     (let entries = sort_by compare_keys json
      in foldl (\<lambda>total (key, v). put key v (spread_into [] total)) [] entries)"

section \<open>Indices: the list of indices\<close>

text \<open>
  The state of the \<open>Indices\<close> component (\<open>IndicesState\<close>). The fields \<open>from\<close> and \<open>size\<close>
  are written \<open>from'\<close> and \<open>size'\<close>. The row type \<open>ManagedCatIndex\<close> and the parsed \<open>Query\<close>
  are type parameters.
\<close>

datatype direction = Asc | Desc

record ('item, 'query) indices_state =
  totalIndices :: int
  from' :: int
  size' :: int
  search :: string
  query :: 'query
  sortField :: string
  sortDirection :: direction
  selectedItems :: "'item list"
  indices :: "'item list"
  loadingIndices :: bool
  showDataStreams :: bool
  isDataStreamColumnVisible :: bool
  deleteIndexModalVisible :: bool

text \<open>
  What an asynchronous call hands back to the code that awaits it: the value the promise
  resolved to, or the exception it was rejected with (which the \<open>await\<close> throws).
\<close>

datatype ('a, 'e) awaited = Resolved 'a | Rejected 'e

text \<open>Notifications raised through \<open>notifications.toasts\<close>.\<close>

datatype toast = Danger string | Warning string | Success string

text \<open>The payload of a successful \<open>indexService.getIndices\<close> call.\<close>

record 'item get_indices_response =
  response_indices :: "'item list"
  response_totalIndices :: int

text \<open>
  \<^verbatim>\<open>
  getIndices = async (): Promise<void> => {
    this.setState({ loadingIndices: true });
    try {
      ...
      const getIndicesResponse = await indexService.getIndices({ ... });
      if (getIndicesResponse.ok) {
        const { indices, totalIndices } = getIndicesResponse.response;
        this.setState({ indices, totalIndices });
      } else {
        this.context.notifications.toasts.addDanger(getIndicesResponse.error);
      }
    } catch (err) {
      this.context.notifications.toasts.addDanger(
        getErrorMessage(err, "There was a problem loading the indices"));
    }
    const { showDataStreams } = this.state;
    this.setState({ loadingIndices: false, isDataStreamColumnVisible: showDataStreams });
  };
  \<close>
  The function suspends once, at the \<open>await\<close>. \<open>getIndices_start\<close> is the part before it and
  \<open>getIndices_resume\<close> the part after it, run on the state the component has when the
  call comes back; \<open>getIndices\<close> is one run with nothing in between. The result of the
  service call is an argument, and so is \<open>getErrorMessage\<close> of the plugin's helpers. A
  rejected call stands for any exception thrown inside the \<open>try\<close> block. The function
  returns the new state and the toasts it raised.
\<close>

definition getIndices_start :: "('item, 'query) indices_state \<Rightarrow> ('item, 'query) indices_state" where
  "getIndices_start s = s\<lparr>loadingIndices := True\<rparr>"

definition getIndices_resume ::
  "('e \<Rightarrow> string \<Rightarrow> string) \<Rightarrow> ('item get_indices_response server_response, 'e) awaited \<Rightarrow>
   ('item, 'query) indices_state \<Rightarrow> ('item, 'query) indices_state \<times> toast list" where
  "getIndices_resume getErrorMessage getIndicesResponse s =
     (let (s1, toasts) =
        (case getIndicesResponse of
           Resolved (Ok response) \<Rightarrow>
             (s\<lparr>indices := response_indices response,
                totalIndices := response_totalIndices response\<rparr>, [])
         | Resolved (Failed error) \<Rightarrow> (s, [Danger error])
         | Rejected err \<Rightarrow>
             (s, [Danger (getErrorMessage err ''There was a problem loading the indices'')]))
      in (s1\<lparr>loadingIndices := False, isDataStreamColumnVisible := showDataStreams s1\<rparr>, toasts))"

definition getIndices ::
  "('e \<Rightarrow> string \<Rightarrow> string) \<Rightarrow> ('item get_indices_response server_response, 'e) awaited \<Rightarrow>
   ('item, 'query) indices_state \<Rightarrow> ('item, 'query) indices_state \<times> toast list" where
  "getIndices getErrorMessage getIndicesResponse s =
     getIndices_resume getErrorMessage getIndicesResponse (getIndices_start s)"

text \<open>
  \<^verbatim>\<open>
  onSearchChange = ({ query, queryText, error }: ArgsWithQuery | ArgsWithError): void => {
    if (error) { return; }
    this.setState({ from: 0, search: queryText, query });
  };
  \<close>
  The search bar reports either a parsed query (\<open>error\<close> is \<open>null\<close>) or a parse error
  (\<open>query\<close> is \<open>null\<close>).
\<close>

datatype ('query, 'e) search_args =
    ArgsWithQuery 'query string
  | ArgsWithError string 'e

fun onSearchChange ::
  "('query, 'e) search_args \<Rightarrow> ('item, 'query) indices_state \<Rightarrow> ('item, 'query) indices_state" where
  "onSearchChange (ArgsWithError queryText error) s = s"
| "onSearchChange (ArgsWithQuery query' queryText) s = s\<lparr>from' := 0, search := queryText, query := query'\<rparr>"

section \<open>CreatePolicy\<close>

text \<open>
  The state of the \<open>CreatePolicy\<close> page. \<open>policySeqNo\<close> and \<open>policyPrimaryTerm\<close> are
  \<open>number | null\<close>.
\<close>

record create_policy_state =
  policyId :: string
  policyIdError :: string
  jsonString :: string
  policySeqNo :: "int option"
  policyPrimaryTerm :: "int option"
  submitError :: string
  isSubmitting :: bool
  hasSubmitted :: bool

text \<open>
  What the page does to the outside, in the order in which it happens: the REST call
  \<open>policyService.putPolicy(policy, policyId, seqNo?, primaryTerm?)\<close>, toasts, a
  navigation to the policies list (\<open>history.push(ROUTES.POLICIES)\<close>) and the error log.
\<close>

datatype 'policy effect =
    PutPolicy 'policy string "(int \<times> int) option"
  | AddDanger string
  | AddSuccess string
  | HistoryPushPolicies
  | ConsoleError

text \<open>
  \<^verbatim>\<open>
  onCreate = async (policyId: string, policy: Policy): Promise<void> => {
    const { policyService } = this.props;
    try {
      const response = await policyService.putPolicy(policy, policyId);
      if (response.ok) {
        toastNotifications.addSuccess(`Created policy: ${response.response._id}`);
        this.props.history.push(ROUTES.POLICIES);
      } else {
        this.setState({ submitError: response.error });
      }
    } catch (err) {
      this.setState({ submitError: getErrorMessage(err, "There was a problem creating the policy") });
    }
  };
  \<close>
  The answer of the service is an argument: the \<open>_id\<close> of the stored policy when the call
  succeeds.
\<close>

definition onCreate ::
  "('e \<Rightarrow> string \<Rightarrow> string) \<Rightarrow> (string server_response, 'e) awaited \<Rightarrow> string \<Rightarrow> 'policy \<Rightarrow>
   create_policy_state \<Rightarrow> create_policy_state \<times> 'policy effect list" where
  "onCreate getErrorMessage response policyId' policy s =
     (case response of
        Resolved (Ok id') \<Rightarrow>
          (s, [PutPolicy policy policyId' None, AddSuccess (''Created policy: '' @ id'), HistoryPushPolicies])
      | Resolved (Failed error) \<Rightarrow>
          (s\<lparr>submitError := error\<rparr>, [PutPolicy policy policyId' None])
      | Rejected err \<Rightarrow>
          (s\<lparr>submitError := getErrorMessage err ''There was a problem creating the policy''\<rparr>,
           [PutPolicy policy policyId' None]))"

text \<open>
  \<^verbatim>\<open>
  onUpdate = async (policyId: string, policy: Policy): Promise<void> => {
    try {
      const { policyService } = this.props;
      const { policyPrimaryTerm, policySeqNo } = this.state;
      if (policySeqNo == null || policyPrimaryTerm == null) {
        toastNotifications.addDanger("Could not update policy without seqNo and primaryTerm");
        return;
      }
      const response = await policyService.putPolicy(policy, policyId, policySeqNo, policyPrimaryTerm);
      if (response.ok) {
        toastNotifications.addSuccess(`Updated policy: ${response.response._id}`);
        this.props.history.push(ROUTES.POLICIES);
      } else {
        this.setState({ submitError: response.error });
      }
    } catch (err) {
      this.setState({ submitError: getErrorMessage(err, "There was a problem updating the policy") });
    }
  };
  \<close>
\<close>

definition onUpdate ::
  "('e \<Rightarrow> string \<Rightarrow> string) \<Rightarrow> (string server_response, 'e) awaited \<Rightarrow> string \<Rightarrow> 'policy \<Rightarrow>
   create_policy_state \<Rightarrow> create_policy_state \<times> 'policy effect list" where
  "onUpdate getErrorMessage response policyId' policy s =
     (case (policySeqNo s, policyPrimaryTerm s) of
        (Some seqNo, Some primaryTerm) \<Rightarrow>
          (case response of
             Resolved (Ok id') \<Rightarrow>
               (s, [PutPolicy policy policyId' (Some (seqNo, primaryTerm)),
                    AddSuccess (''Updated policy: '' @ id'), HistoryPushPolicies])
           | Resolved (Failed error) \<Rightarrow>
               (s\<lparr>submitError := error\<rparr>, [PutPolicy policy policyId' (Some (seqNo, primaryTerm))])
           | Rejected err \<Rightarrow>
               (s\<lparr>submitError := getErrorMessage err ''There was a problem updating the policy''\<rparr>,
                [PutPolicy policy policyId' (Some (seqNo, primaryTerm))]))
      | _ \<Rightarrow> (s, [AddDanger ''Could not update policy without seqNo and primaryTerm'']))"

text \<open>
  \<^verbatim>\<open>
  onSubmit = async (): Promise<void> => {
    const { isEdit } = this.props;
    const { policyId, jsonString } = this.state;
    this.setState({ submitError: "", isSubmitting: true, hasSubmitted: true });
    try {
      if (!policyId) {
        this.setState({ policyIdError: "Required" });
      } else {
        const policy = JSON.parse(jsonString);
        if (isEdit) await this.onUpdate(policyId, policy);
        else await this.onCreate(policyId, policy);
      }
    } catch (err) {
      toastNotifications.addDanger("Invalid Policy JSON");
      console.error(err);
    }
    this.setState({ isSubmitting: false });
  };
  \<close>
  \<open>JSON.parse\<close> is an argument: \<open>None\<close> when it throws a syntax error.
\<close>

definition onSubmit ::
  "bool \<Rightarrow> (string \<Rightarrow> 'policy option) \<Rightarrow> ('e \<Rightarrow> string \<Rightarrow> string) \<Rightarrow>
   (string server_response, 'e) awaited \<Rightarrow>
   create_policy_state \<Rightarrow> create_policy_state \<times> 'policy effect list" where
  "onSubmit isEdit JSON_parse getErrorMessage response s =
     (let s1 = s\<lparr>submitError := '''', isSubmitting := True, hasSubmitted := True\<rparr>;
          (s2, effects) =
            (if policyId s = '''' then (s1\<lparr>policyIdError := ''Required''\<rparr>, [])
             else (case JSON_parse (jsonString s) of
                     None \<Rightarrow> (s1, [AddDanger ''Invalid Policy JSON'', ConsoleError])
                   | Some policy \<Rightarrow>
                       if isEdit then onUpdate getErrorMessage response (policyId s) policy s1
                       else onCreate getErrorMessage response (policyId s) policy s1))
      in (s2\<lparr>isSubmitting := False\<rparr>, effects))"

definition issues_putPolicy :: "'policy effect list \<Rightarrow> bool" where
  "issues_putPolicy effects = list_ex (\<lambda>e. case e of PutPolicy p i v \<Rightarrow> True | _ \<Rightarrow> False) effects"

section \<open>Reading values, and the deep merge of lodash\<close>

text \<open>
  \<open>get_prop v k\<close> reads the property \<open>k\<close> of any value the way the optional chaining
  \<open>v?.k\<close> does: \<open>undefined\<close> when \<open>v\<close> is \<open>null\<close> or \<open>undefined\<close>, and also when \<open>v\<close> is
  a primitive (the keys read in this development, \<open>index\<close>, \<open>mappings\<close>, \<open>properties\<close> and
  the keys of JSON documents, are no properties of strings, numbers or booleans).
  \<open>lookup v path\<close> follows a path of keys.
\<close>

fun get_prop :: "json \<Rightarrow> string \<Rightarrow> json" where
  "get_prop (JObj kind es) k = get_own es k"
| "get_prop v k = JUndefined"

fun lookup :: "json \<Rightarrow> string list \<Rightarrow> json" where
  "lookup v [] = v"
| "lookup v (k # path) = lookup (get_prop v k) path"

text \<open>Truthiness, and \<open>a || b\<close>.\<close>

fun truthy :: "json \<Rightarrow> bool" where
  "truthy JUndefined = False"
| "truthy JNull = False"
| "truthy (JBool b) = b"
| "truthy (JNum n) = (n \<noteq> 0)"
| "truthy (JStr s) = (s \<noteq> [])"
| "truthy (JObj kind es) = True"

definition or_else :: "json \<Rightarrow> json \<Rightarrow> json" where
  "or_else a b = (if truthy a then a else b)"

fun is_object :: "json \<Rightarrow> bool" where
  "is_object (JObj kind es) = True"
| "is_object v = False"

fun is_array :: "json \<Rightarrow> bool" where
  "is_array (JObj ArrayObject es) = True"
| "is_array v = False"

text \<open>A leaf is a value that is present and is no object: \<open>null\<close>, a boolean, a number or a string.\<close>

fun is_leaf :: "json \<Rightarrow> bool" where
  "is_leaf JUndefined = False"
| "is_leaf (JObj kind es) = False"
| "is_leaf v = True"

text \<open>
  \<open>IndexDetail\<close> merges with \<open>merge\<close> of lodash, a library outside this repository. The
  model follows its documented behaviour: the own enumerable properties of the source are
  merged into the destination one by one; a source property that is an array or a plain
  object is merged recursively into the destination's property (into a fresh array or
  object when the destination has none it could be merged into); any other source value
  is assigned; a source property that resolves to \<open>undefined\<close> is skipped if the
  destination has the key.

  \<open>assign\<close> writes a property of a destination; \<open>merge_base\<close> is the object a source object
  is merged into: the destination's own value when that is an array (for a source array)
  or any object (for a source plain object), a fresh empty one otherwise.
\<close>

fun assign :: "json \<Rightarrow> string \<Rightarrow> json \<Rightarrow> json" where
  "assign (JObj kind es) k v = JObj kind (put k v es)"
| "assign object k v = object"

fun has_prop :: "json \<Rightarrow> string \<Rightarrow> bool" where
  "has_prop (JObj kind es) k = (k \<in> set (map fst es))"
| "has_prop v k = False"

definition assignMergeValue :: "json \<Rightarrow> string \<Rightarrow> json \<Rightarrow> json" where
  "assignMergeValue object k v =
     (if v \<noteq> JUndefined then assign object k v
      else if has_prop object k then object
      else assign object k JUndefined)"

fun merge_base :: "json \<Rightarrow> okind \<Rightarrow> json" where
  "merge_base objValue ArrayObject = (if is_array objValue then objValue else JObj ArrayObject [])"
| "merge_base objValue PlainObject = (if is_object objValue then objValue else JObj PlainObject [])"

fun baseMerge :: "json \<Rightarrow> json \<Rightarrow> json"
  and merge_props :: "json \<Rightarrow> (string \<times> json) list \<Rightarrow> json" where
  "baseMerge object (JObj kind props) = merge_props object props"
| "baseMerge object JUndefined = object"
| "baseMerge object JNull = object"
| "baseMerge object (JBool b) = object"
| "baseMerge object (JNum n) = object"
| "baseMerge object (JStr s) = object"
| "merge_props object [] = object"
| "merge_props object ((key, srcValue) # rest) =
     merge_props
       (assignMergeValue object key
          (case srcValue of
             JObj kind ps \<Rightarrow> baseMerge (merge_base (get_prop object key) kind) srcValue
           | _ \<Rightarrow> srcValue))
       rest"

text \<open>
  What the merge leaves under a key of the destination, given the destination's value
  \<open>objValue\<close> and the source's value \<open>srcValue\<close> under that key (lemma
  \<open>get_prop_merge_props\<close>).
\<close>

definition merge_value :: "json \<Rightarrow> json \<Rightarrow> json" where
  "merge_value objValue srcValue =
     (case srcValue of
        JObj kind ps \<Rightarrow> baseMerge (merge_base objValue kind) srcValue
      | JUndefined \<Rightarrow> objValue
      | _ \<Rightarrow> srcValue)"

text \<open>\<open>merge(object, source1, source2)\<close>: the sources are applied from left to right.\<close>

definition merge2 :: "obj \<Rightarrow> obj \<Rightarrow> obj \<Rightarrow> json" where
  "merge2 object source1 source2 =
     baseMerge (baseMerge (JObj PlainObject object) (JObj PlainObject source1)) (JObj PlainObject source2)"

text \<open>
  The values the merge is reasoned about: at every level the keys of an object are
  pairwise different and in enumeration order, an array holds exactly the elements
  \<open>0, \<dots>, n - 1\<close>, no plain object is array-like (a non-negative number under the key
  \<open>length\<close>, which lodash would copy as an array when it meets a source array) and no
  key is \<open>__proto__\<close> (which lodash does not merge). Every document produced by
  \<open>JSON.parse\<close> without these two keys is of this form.
\<close>

definition array_like :: "obj \<Rightarrow> bool" where
  "array_like es = (case get_own es ''length'' of JNum n \<Rightarrow> 0 \<le> n | _ \<Rightarrow> False)"

definition dense_array :: "obj \<Rightarrow> bool" where
  "dense_array es \<longleftrightarrow>
     list_all is_array_index (map fst es) \<and> map decimal (map fst es) = [0..<length es]"

fun json_tree :: "json \<Rightarrow> bool"
  and json_trees :: "(string \<times> json) list \<Rightarrow> bool" where
  "json_tree (JObj kind es) =
     (wf_obj es \<and> ''__proto__'' \<notin> set (map fst es) \<and> json_trees es \<and>
      (case kind of ArrayObject \<Rightarrow> dense_array es | PlainObject \<Rightarrow> \<not> array_like es))"
| "json_tree JUndefined = True"
| "json_tree JNull = True"
| "json_tree (JBool b) = True"
| "json_tree (JNum n) = True"
| "json_tree (JStr s) = True"
| "json_trees [] = True"
| "json_trees ((k, v) # es) = (json_tree v \<and> json_trees es)"

text \<open>
  \<open>unset_at src dest path\<close>: the source has no value at \<open>path\<close> that the merge would write
  into the destination. Following the path, the source runs into a missing (or
  \<open>undefined\<close>) property, and up to there each object of the source meets an object of the
  destination into which it is merged.
\<close>

fun unset_at :: "json \<Rightarrow> json \<Rightarrow> string list \<Rightarrow> bool" where
  "unset_at src dest [] = False"
| "unset_at src dest (k # path) =
     (case get_prop src k of
        JUndefined \<Rightarrow> True
      | JObj kind ps \<Rightarrow>
          path \<noteq> [] \<and> merge_base (get_prop dest k) kind = get_prop dest k \<and>
          unset_at (JObj kind ps) (get_prop dest k) path
      | _ \<Rightarrow> False)"

section \<open>IndexDetail\<close>

text \<open>
  The state of one \<open>IndexDetail\<close> component: the form value, which the component hands to
  its parent through \<open>onChange\<close> and receives back as the property \<open>value\<close> (\<open>None\<close> is
  \<open>undefined\<close>); the references \<open>hasEdit\<close> and \<open>destroyRef\<close>; and the two state variables
  \<open>templateSimulateLoading\<close> and \<open>isMatchingTemplate\<close>.
\<close>

record detail_state =
  formValue :: "obj option"
  hasEdit :: bool
  destroyRef :: bool
  templateSimulateLoading :: bool
  isMatchingTemplate :: bool

text \<open>
  \<open>set\<close> of lodash, for a path that is already a list of keys: the objects along the path
  are kept, and what is no object there is replaced by a fresh array (before an index
  key) or a fresh object. The keys \<open>__proto__\<close>, \<open>constructor\<close> and \<open>prototype\<close> end the
  walk.
\<close>

definition isIndex :: "string \<Rightarrow> bool" where
  "isIndex s \<longleftrightarrow>
     s \<noteq> [] \<and> list_all is_digit s \<and> (s = ''0'' \<or> hd s \<noteq> CHR ''0'') \<and>
     decimal s < 9007199254740991"

fun baseSet :: "json \<Rightarrow> string list \<Rightarrow> json \<Rightarrow> json" where
  "baseSet (JObj kind es) [key] v =
     (if key \<in> {''__proto__'', ''constructor'', ''prototype''} then JObj kind es
      else JObj kind (put key v es))"
| "baseSet (JObj kind es) (key # next # path) v =
     (if key \<in> {''__proto__'', ''constructor'', ''prototype''} then JObj kind es
      else let objValue = get_own es key;
               newValue = (if is_object objValue then objValue
                           else if isIndex next then JObj ArrayObject []
                           else JObj PlainObject [])
           in JObj kind (put key (baseSet newValue (next # path) v) es))"
| "baseSet object path v = object"

text \<open>
  \<^verbatim>\<open>
  const onValueChange = useCallback((name: string | string[], val) => {
      let finalValue = value || {};
      set(finalValue, name, val);
      onChange({ ...finalValue });
      if (name !== "index") { hasEdit.current = true; }
    }, [onChange, value]);
  \<close>
  The name is given as the path lodash makes of it. The names this component passes are
  \<open>index\<close> and \<open>aliases\<close>, \<open>["settings", name]\<close>, \<open>settings\<close> and \<open>mappings.properties\<close>
  (the path \<open>mappings\<close>, \<open>properties\<close>); only the first is equal to \<open>"index"\<close>.
\<close>

definition as_record :: "json \<Rightarrow> obj" where
  "as_record v = (case v of JObj kind es \<Rightarrow> es | _ \<Rightarrow> [])"

definition onValueChange :: "string list \<Rightarrow> json \<Rightarrow> detail_state \<Rightarrow> detail_state" where
  "onValueChange name val s =
     (let finalValue = (case formValue s of None \<Rightarrow> [] | Some v \<Rightarrow> v);
          finalValue' = as_record (baseSet (JObj PlainObject finalValue) name val)
      in s\<lparr>formValue := Some (spread_into [] finalValue'),
           hasEdit := (if name \<noteq> [''index''] then True else hasEdit s)\<rparr>)"

text \<open>
  The settings form reports a change of one field under its name, and a change of the
  whole settings value (the advanced-settings editor) without a name.
  \<^verbatim>\<open>
  onChange={(totalValue, name, val) => {
    if (name) { onValueChange(["settings", name], val); }
    else { onValueChange("settings", val); }
  }}
  \<close>
\<close>

definition settings_onChange :: "string option \<Rightarrow> json \<Rightarrow> detail_state \<Rightarrow> detail_state" where
  "settings_onChange name val s =
     (case name of
        Some n \<Rightarrow> if n \<noteq> [] then onValueChange [''settings'', n] val s
                  else onValueChange [''settings''] val s
      | None \<Rightarrow> onValueChange [''settings''] val s)"

text \<open>
  The advanced-settings editor.
  \<^verbatim>\<open>
  renderProps: readonly ? undefined : ({ value, onChange, ref }) => (
    <JSONDiffEditor
      disabled={readonly}
      original={JSON.stringify(getOrderedJson(oldValue?.settings || {}), null, 2)}
      value={JSON.stringify(getOrderedJson(value || {}), null, 2)}
      onChange={(val) => onChange(JSON.parse(val))}
      ref={ref} />)
  \<close>
  \<open>JSON.stringify\<close> (with indentation 2) and \<open>JSON.parse\<close> are arguments; \<open>JSON.parse\<close>
  gives \<open>None\<close> when it throws a syntax error, and then the editor's handler throws
  before it calls \<open>onChange\<close>.

  \<open>getOrderedJson\<close> enumerates its argument with \<open>Object.entries\<close>. The argument is
  \<open>x || {}\<close>, so it is never \<open>null\<close> or \<open>undefined\<close>, but it need not be an object: the
  editor hands on whatever \<open>JSON.parse\<close> returns. \<open>Object.entries\<close> gives the own
  properties of an object or array, the characters of a string under the keys \<open>0\<close>,
  \<open>1\<close>, \<dots>, and nothing for a number or a boolean.
\<close>

definition digit_char :: "nat \<Rightarrow> char" where
  "digit_char d = ''0123456789'' ! d"

fun numeral_string :: "nat \<Rightarrow> string" where
  "numeral_string n =
     (if n < 10 then [digit_char n] else numeral_string (n div 10) @ [digit_char (n mod 10)])"

definition Object_entries :: "json \<Rightarrow> obj" where
  "Object_entries v =
     (case v of
        JObj kind es \<Rightarrow> es
      | JStr s \<Rightarrow> zip (map numeral_string [0..<length s]) (map (\<lambda>c. JStr [c]) s)
      | _ \<Rightarrow> [])"

datatype js_error = SyntaxError

record 'r diff_editor_props =
  disabled :: bool
  original :: string
  value' :: string
  onChange :: "string \<Rightarrow> js_error + 'r"

definition old_settings :: "obj option \<Rightarrow> obj" where
  "old_settings oldValue =
     Object_entries
       (or_else (get_prop (case oldValue of None \<Rightarrow> JUndefined | Some v \<Rightarrow> JObj PlainObject v) ''settings'')
          (JObj PlainObject []))"

definition current_settings :: "json \<Rightarrow> obj" where
  "current_settings val = Object_entries (or_else val (JObj PlainObject []))"

definition original_json :: "obj option \<Rightarrow> obj" where
  "original_json oldValue = getOrderedJson (old_settings oldValue)"

definition value_json :: "json \<Rightarrow> obj" where
  "value_json val = getOrderedJson (current_settings val)"

definition renderProps ::
  "(json \<Rightarrow> string) \<Rightarrow> (string \<Rightarrow> json option) \<Rightarrow> bool \<Rightarrow> obj option \<Rightarrow>
   json \<Rightarrow> (json \<Rightarrow> 'r) \<Rightarrow> 'r diff_editor_props option" where
  "renderProps JSON_stringify JSON_parse readonly oldValue val onChange' =
     (if readonly then None
      else Some
        \<lparr>disabled = readonly,
         original = JSON_stringify (JObj PlainObject (original_json oldValue)),
         value' = JSON_stringify (JObj PlainObject (value_json val)),
         onChange = (\<lambda>text. case JSON_parse text of None \<Rightarrow> Inl SyntaxError | Some v \<Rightarrow> Inr (onChange' v))\<rparr>)"

text \<open>
  The handler of the index-name input's blur event.
  \<^verbatim>\<open>
  const onIndexInputBlur = useCallback(async () => {
    await new Promise((resolve) => setTimeout(resolve, 200));
    if (destroyRef.current) { return; }
    if (finalValue.index && onSimulateIndexTemplate) {
      setTemplateSimulateLoading(true);
      const result = await onSimulateIndexTemplate(finalValue.index);
      if (destroyRef.current) { return; }
      setTemplateSimulateLoading(false);
      if (result && result.ok) {
        let onChangePromise: Promise<IndexItemRemote>;
        if (hasEdit.current) {
          onChangePromise = new Promise((resolve) => {
            Modal.show({ ...
              locale: { confirm: "Overwrite", cancel: "Merge your changes with template" },
              onOk: () => resolve(result.response),
              onCancel: () => {
                const formatValue: IndexItemRemote = {
                  index: "",
                  ...finalValue,
                  mappings: {
                    properties: transformArrayToObject(finalValue.mappings?.properties || []),
                  },
                };
                const mergedValue: IndexItemRemote = { index: finalValue.index || "" };
                merge(mergedValue, result.response, formatValue);
                resolve(mergedValue);
              },
            });
          });
        } else {
          onChangePromise = Promise.resolve(result.response);
        }
        onChangePromise.then((data) => {
          onChange({
            ...data,
            mappings: { properties: transformObjectToArray(data?.mappings?.properties || {}) },
          });
          hasEdit.current = false;
          setIsMatchingTemplate(true);
        });
      } else {
        setIsMatchingTemplate(false);
      }
    }
  }, [finalValue.index, onSimulateIndexTemplate]);
  \<close>
  One call of the handler runs in up to three pieces, separated by the 200 ms delay, the
  simulation request and the confirmation dialog; between two pieces other handlers of
  the page may run. The pieces are the functions \<open>delay_elapsed\<close>, \<open>simulation_returned\<close>
  and \<open>confirm_ok\<close> / \<open>confirm_cancel\<close>; each takes the state of the component at that
  moment and returns the new state and where the handler stands. \<open>finalValue\<close> is the form
  value the handler holds, of the rendering that created it. The conversions
  \<open>transformArrayToObject\<close> and \<open>transformObjectToArray\<close> of \<open>IndexMapping\<close> are arguments.
\<close>

datatype blur_stage =
    Delaying
  | Simulating json
  | Confirming obj
  | Finished

definition delay_elapsed :: "bool \<Rightarrow> obj \<Rightarrow> detail_state \<Rightarrow> detail_state \<times> blur_stage" where
  "delay_elapsed has_onSimulateIndexTemplate finalValue s =
     (if destroyRef s then (s, Finished)
      else if truthy (get_own finalValue ''index'') \<and> has_onSimulateIndexTemplate
        then (s\<lparr>templateSimulateLoading := True\<rparr>, Simulating (get_own finalValue ''index''))
      else (s, Finished))"

text \<open>
  The continuation \<open>onChangePromise.then(...)\<close>: it delivers the new form value, clears
  \<open>hasEdit\<close> and sets the template indicator.
\<close>

definition deliver :: "(json \<Rightarrow> json) \<Rightarrow> json \<Rightarrow> detail_state \<Rightarrow> detail_state" where
  "deliver transformObjectToArray data s =
     s\<lparr>formValue := Some
          (put ''mappings''
             (JObj PlainObject
                [(''properties'',
                  transformObjectToArray
                    (or_else (get_prop (get_prop data ''mappings'') ''properties'') (JObj PlainObject [])))])
             (spread_into [] (as_record data))),
       hasEdit := False,
       isMatchingTemplate := True\<rparr>"

definition simulation_returned ::
  "(json \<Rightarrow> json) \<Rightarrow> (obj server_response option, 'e) awaited \<Rightarrow> detail_state \<Rightarrow>
   detail_state \<times> blur_stage" where
  "simulation_returned transformObjectToArray result s =
     (case result of
        Rejected err \<Rightarrow> (s, Finished)
      | Resolved r \<Rightarrow>
          if destroyRef s then (s, Finished)
          else (let s1 = s\<lparr>templateSimulateLoading := False\<rparr> in
                case r of
                  Some (Ok response) \<Rightarrow>
                    if hasEdit s1 then (s1, Confirming response)
                    else (deliver transformObjectToArray (JObj PlainObject response) s1, Finished)
                | _ \<Rightarrow> (s1\<lparr>isMatchingTemplate := False\<rparr>, Finished)))"

definition confirm_ok :: "(json \<Rightarrow> json) \<Rightarrow> obj \<Rightarrow> detail_state \<Rightarrow> detail_state \<times> blur_stage" where
  "confirm_ok transformObjectToArray response s =
     (deliver transformObjectToArray (JObj PlainObject response) s, Finished)"

definition formatValue :: "(json \<Rightarrow> json) \<Rightarrow> obj \<Rightarrow> obj" where
  "formatValue transformArrayToObject finalValue =
     put ''mappings''
       (JObj PlainObject
          [(''properties'',
            transformArrayToObject
              (or_else (get_prop (get_own finalValue ''mappings'') ''properties'') (JObj ArrayObject [])))])
       (spread_into [(''index'', JStr [])] finalValue)"

definition mergedValue :: "(json \<Rightarrow> json) \<Rightarrow> obj \<Rightarrow> obj \<Rightarrow> json" where
  "mergedValue transformArrayToObject finalValue response =
     merge2 [(''index'', or_else (get_own finalValue ''index'') (JStr []))] response
       (formatValue transformArrayToObject finalValue)"

definition confirm_cancel ::
  "(json \<Rightarrow> json) \<Rightarrow> (json \<Rightarrow> json) \<Rightarrow> obj \<Rightarrow> obj \<Rightarrow> detail_state \<Rightarrow>
   detail_state \<times> blur_stage" where
  "confirm_cancel transformArrayToObject transformObjectToArray finalValue response s =
     (deliver transformObjectToArray (mergedValue transformArrayToObject finalValue response) s, Finished)"

text \<open>
  Several calls of the blur handler can be under way at once: each blur event starts a
  call, and a call rests while it waits for its delay, for the simulation or for the
  confirmation dialog. A \<open>page\<close> is the component together with the calls started so far
  (each with the \<open>finalValue\<close> it holds and the stage it has reached) and the number of
  simulation requests issued. The events are the things that happen to the page, one at a
  time: the blur of the index-name input, the end of a call's delay, the answer to a
  call's simulation request, the two buttons of a call's confirmation dialog, an edit of
  a form field, and the removal of the component (the cleanup of its effect sets
  \<open>destroyRef\<close>).
\<close>

record page =
  component :: detail_state
  calls :: "(obj \<times> blur_stage) list"
  requests :: nat

datatype event =
    Blur obj
  | DelayOver nat
  | SimulationAnswer nat "(obj server_response option, unit) awaited"
  | ClickOverwrite nat
  | ClickMerge nat
  | Edit "string list" json
  | Unmount

definition resume :: "nat \<Rightarrow> (obj \<Rightarrow> blur_stage \<Rightarrow> (detail_state \<times> blur_stage) option) \<Rightarrow> page \<Rightarrow> page" where
  "resume i piece p =
     (if i < length (calls p) then
        (case piece (fst (calls p ! i)) (snd (calls p ! i)) of
           None \<Rightarrow> p
         | Some (s, stage) \<Rightarrow>
             p\<lparr>component := s,
               calls := (calls p)[i := (fst (calls p ! i), stage)],
               requests := (case stage of Simulating name \<Rightarrow> Suc (requests p) | _ \<Rightarrow> requests p)\<rparr>)
      else p)"

fun step ::
  "bool \<Rightarrow> (json \<Rightarrow> json) \<Rightarrow> (json \<Rightarrow> json) \<Rightarrow> event \<Rightarrow> page \<Rightarrow> page" where
  "step sim toObject toArray (Blur finalValue) p = p\<lparr>calls := calls p @ [(finalValue, Delaying)]\<rparr>"
| "step sim toObject toArray (DelayOver i) p =
     resume i (\<lambda>finalValue stage.
        case stage of Delaying \<Rightarrow> Some (delay_elapsed sim finalValue (component p)) | _ \<Rightarrow> None) p"
| "step sim toObject toArray (SimulationAnswer i result) p =
     resume i (\<lambda>finalValue stage.
        case stage of Simulating name \<Rightarrow> Some (simulation_returned toArray result (component p)) | _ \<Rightarrow> None) p"
| "step sim toObject toArray (ClickOverwrite i) p =
     resume i (\<lambda>finalValue stage.
        case stage of Confirming response \<Rightarrow> Some (confirm_ok toArray response (component p)) | _ \<Rightarrow> None) p"
| "step sim toObject toArray (ClickMerge i) p =
     resume i (\<lambda>finalValue stage.
        case stage of Confirming response \<Rightarrow>
            Some (confirm_cancel toObject toArray finalValue response (component p))
        | _ \<Rightarrow> None) p"
| "step sim toObject toArray (Edit name val) p = p\<lparr>component := onValueChange name val (component p)\<rparr>"
| "step sim toObject toArray Unmount p = p\<lparr>component := (component p)\<lparr>destroyRef := True\<rparr>\<rparr>"

definition run ::
  "bool \<Rightarrow> (json \<Rightarrow> json) \<Rightarrow> (json \<Rightarrow> json) \<Rightarrow> event list \<Rightarrow> page \<Rightarrow> page" where
  "run sim toObject toArray events p = foldl (\<lambda>q e. step sim toObject toArray e q) p events"

definition in_flight :: "page \<Rightarrow> nat" where
  "in_flight p = length (filter (\<lambda>c. case snd c of Simulating name \<Rightarrow> True | _ \<Rightarrow> False) (calls p))"

definition delaying :: "page \<Rightarrow> nat" where
  "delaying p = length (filter (\<lambda>c. snd c = Delaying) (calls p))"

definition mounted :: "obj option \<Rightarrow> page" where
  "mounted v =
     \<lparr>component = \<lparr>formValue = v, hasEdit = False, destroyRef = False,
                   templateSimulateLoading = False, isMatchingTemplate = False\<rparr>,
      calls = [], requests = 0\<rparr>"

definition blurs :: "event list \<Rightarrow> nat" where
  "blurs events = length (filter (\<lambda>e. case e of Blur finalValue \<Rightarrow> True | _ \<Rightarrow> False) events)"

text \<open>
  The counts of a page agree: no more requests are in flight than were issued, and every
  request issued and every call still in its delay belongs to a call of its own.
\<close>

definition call_counts :: "page \<Rightarrow> bool" where
  "call_counts p \<longleftrightarrow> in_flight p \<le> requests p \<and> requests p + delaying p \<le> length (calls p)"

section \<open>The form value as a shared object\<close>

text \<open>
  The functions above take the \<open>finalValue\<close> of a call of the blur handler as a value.
  In the running page it is an object, and which object it is, and what that object holds
  when the handler reads it, is decided by three things in \<open>IndexDetail\<close>:
  \<^item> \<open>onIndexInputBlur\<close> is memoised, \<open>useCallback(\<dots>, [finalValue.index,
    onSimulateIndexTemplate])\<close>: a rendering keeps the handler of an earlier rendering,
    with the \<open>finalValue\<close> of that rendering, as long as both dependencies are unchanged;
  \<^item> \<open>onValueChange\<close> (memoised on \<open>[onChange, value]\<close>, so always of the present value)
    writes into the present value object with \<open>set\<close> and hands a spread copy of it to
    \<open>onChange\<close>; the copy shares every property value with the object it was copied from;
  \<^item> the parent passes the object it received through \<open>onChange\<close> back as the property
    \<open>value\<close> of the next rendering (the component is a controlled one).

  The page of the previous section counts calls and requests, for which the objects do
  not matter; the session of this section follows the objects.

  A \<open>heap\<close> holds the form value objects and the values of their properties. A form
  value object is a list of its own properties, each with the address of the cell that
  holds its value; two objects share a property value when they name the same cell. What
  enters the heap from outside (a field value reported by a form control, a simulation
  response, the result of the merge) is new and shares nothing with the objects already
  there.
\<close>

record heap =
  cells :: "json list"
  objects :: "(string \<times> nat) list list"

definition cell_at :: "heap \<Rightarrow> nat \<Rightarrow> json" where
  "cell_at h c = (if c < length (cells h) then cells h ! c else JUndefined)"

definition object_at :: "heap \<Rightarrow> nat \<Rightarrow> (string \<times> nat) list" where
  "object_at h a = (if a < length (objects h) then objects h ! a else [])"

text \<open>The object at an address, read as a value.\<close>

definition contents :: "heap \<Rightarrow> nat \<Rightarrow> obj" where
  "contents h a = map (\<lambda>(k, c). (k, cell_at h c)) (object_at h a)"

text \<open>A new object with the given properties.\<close>

definition new_object :: "obj \<Rightarrow> heap \<Rightarrow> nat \<times> heap" where
  "new_object es h =
     (length (objects h),
      h\<lparr>cells := cells h @ map snd es,
        objects := objects h @ [zip (map fst es) [length (cells h) ..< length (cells h) + length es]]\<rparr>)"

text \<open>The spread copy \<open>{...o}\<close> of the object at an address.\<close>

definition spread_copy :: "nat \<Rightarrow> heap \<Rightarrow> nat \<times> heap" where
  "spread_copy a h = (length (objects h), h\<lparr>objects := objects h @ [spread_into [] (object_at h a)]\<rparr>)"

text \<open>
  \<open>set(object, path, value)\<close> of lodash on the object at an address (compare \<open>baseSet\<close>):
  a one-key path assigns a property of the object itself; a longer path writes into the
  object found under the first key, which every object sharing that property value sees,
  and creates a new array or object there if there is none.
\<close>

definition set_in_place :: "nat \<Rightarrow> string list \<Rightarrow> json \<Rightarrow> heap \<Rightarrow> heap" where
  "set_in_place a path v h =
     (case path of
        [] \<Rightarrow> h
      | key # rest \<Rightarrow>
          if key \<in> {''__proto__'', ''constructor'', ''prototype''} then h
          else if rest = [] then
            h\<lparr>cells := cells h @ [v],
              objects := (objects h)[a := put key (length (cells h)) (object_at h a)]\<rparr>
          else
            (let created =
               h\<lparr>cells := cells h @
                       [baseSet (if isIndex (hd rest) then JObj ArrayObject [] else JObj PlainObject []) rest v],
                 objects := (objects h)[a := put key (length (cells h)) (object_at h a)]\<rparr>
             in case map_of (object_at h a) key of
                  None \<Rightarrow> created
                | Some c \<Rightarrow>
                    if is_object (cell_at h c)
                    then h\<lparr>cells := (cells h)[c := baseSet (cell_at h c) rest v]\<rparr>
                    else created))"

text \<open>
  A \<open>session\<close> is the component in the running page: the heap; the address of the
  property \<open>value\<close> (\<open>None\<close> is \<open>undefined\<close>); the references and state variables of the
  component (\<open>detail\<close>; its field \<open>formValue\<close> is used only to carry a value out of a piece
  of the handler that hands one to \<open>onChange\<close>, the form value itself is in the heap); the
  memoised blur handler, that is the address of the \<open>finalValue\<close> it holds and the value
  of the dependency \<open>finalValue.index\<close> it was created with; and the calls of the handler
  started so far, each with the address of its \<open>finalValue\<close> and the stage it has reached.
\<close>

record session =
  store :: heap
  current :: "nat option"
  detail :: detail_state
  memo :: nat
  memo_index :: "nat option \<times> json"
  handlers :: "(nat \<times> blur_stage) list"

text \<open>The form value at present, as a value.\<close>

definition draft :: "session \<Rightarrow> obj option" where
  "draft ss = map_option (contents (store ss)) (current ss)"

text \<open>
  The dependency \<open>finalValue.index\<close> of an object, and the comparison \<open>Object.is\<close> of two
  such dependencies: two objects are the same if they are the same cell, two other values
  if they are equal.
\<close>

definition index_of :: "heap \<Rightarrow> nat \<Rightarrow> nat option \<times> json" where
  "index_of h a = (map_of (object_at h a) ''index'', get_own (contents h a) ''index'')"

definition Object_is :: "nat option \<times> json \<Rightarrow> nat option \<times> json \<Rightarrow> bool" where
  "Object_is x y = (if is_object (snd x) \<and> is_object (snd y) then fst x = fst y else snd x = snd y)"

text \<open>
  A rendering: \<open>const finalValue = value || {}\<close>, and the handler of the earlier
  rendering is kept if the dependencies are unchanged. \<open>same_simulate\<close> says that the parent
  passes the same function \<open>onSimulateIndexTemplate\<close> at every rendering (a method of the
  parent, say); otherwise it passes a new one each time (an inline function), and every
  rendering makes a new handler.
\<close>

definition final_value :: "session \<Rightarrow> nat \<times> heap" where
  "final_value ss = (case current ss of Some a \<Rightarrow> (a, store ss) | None \<Rightarrow> new_object [] (store ss))"

definition render :: "bool \<Rightarrow> session \<Rightarrow> session" where
  "render same_simulate ss =
     (let (finalValue, h) = final_value ss
      in if same_simulate \<and> Object_is (index_of h finalValue) (memo_index ss) then ss
         else ss\<lparr>store := h, memo := finalValue, memo_index := index_of h finalValue\<rparr>)"

text \<open>The first rendering of the component with a given property \<open>value\<close>.\<close>

definition first_rendering :: "obj option \<Rightarrow> session" where
  "first_rendering v =
     (let (cur, h) = (case v of
                        None \<Rightarrow> (None, \<lparr>cells = [], objects = []\<rparr>)
                      | Some es \<Rightarrow> (let (a, h) = new_object es \<lparr>cells = [], objects = []\<rparr> in (Some a, h)));
          ss = \<lparr>store = h, current = cur,
                detail = \<lparr>formValue = None, hasEdit = False, destroyRef = False,
                           templateSimulateLoading = False, isMatchingTemplate = False\<rparr>,
                memo = 0, memo_index = (None, JUndefined), handlers = []\<rparr>;
          (finalValue, h') = final_value ss
      in ss\<lparr>store := h', memo := finalValue, memo_index := index_of h' finalValue\<rparr>)"

text \<open>
  \<open>onValueChange(name, val)\<close> in the page: \<open>set\<close> writes into the present value object
  (a new \<open>{}\<close> if the property \<open>value\<close> is \<open>undefined\<close>), a spread copy of it goes to
  \<open>onChange\<close> and comes back as the property \<open>value\<close>, and the component is rendered
  again.
\<close>

definition change :: "bool \<Rightarrow> string list \<Rightarrow> json \<Rightarrow> session \<Rightarrow> session" where
  "change same_simulate name val ss =
     (let (finalValue, h) = final_value ss;
          (copy, h') = spread_copy finalValue (set_in_place finalValue name val h)
      in render same_simulate
           (ss\<lparr>store := h', current := Some copy,
               detail := (detail ss)\<lparr>hasEdit := (if name \<noteq> [''index''] then True else hasEdit (detail ss))\<rparr>\<rparr>))"

text \<open>
  A call of the blur handler goes on with its next piece. The piece reads the \<open>finalValue\<close>
  of the call as the object at its address holds it at that moment. No piece reads the
  form value from the component state; a piece that hands a value to \<open>onChange\<close> leaves
  it in the field \<open>formValue\<close>, from where it becomes a new object and the property
  \<open>value\<close>. Then the component is rendered again.
\<close>

definition proceed ::
  "bool \<Rightarrow> nat \<Rightarrow> (obj \<Rightarrow> blur_stage \<Rightarrow> detail_state \<Rightarrow> (detail_state \<times> blur_stage) option) \<Rightarrow>
   session \<Rightarrow> session" where
  "proceed same_simulate i piece ss =
     (if i < length (handlers ss) then
        (case piece (contents (store ss) (fst (handlers ss ! i))) (snd (handlers ss ! i))
                ((detail ss)\<lparr>formValue := None\<rparr>) of
           None \<Rightarrow> ss
         | Some (s, stage) \<Rightarrow>
             (let ss' = ss\<lparr>handlers := (handlers ss)[i := (fst (handlers ss ! i), stage)],
                           detail := s\<lparr>formValue := None\<rparr>\<rparr>
              in render same_simulate
                   (case formValue s of
                      None \<Rightarrow> ss'
                    | Some v \<Rightarrow> (let (a, h) = new_object v (store ss') in ss'\<lparr>store := h, current := Some a\<rparr>))))
      else ss)"

text \<open>
  What happens to the component, one thing at a time: the index-name input loses the
  focus (the handler of the present rendering starts a call), the delay of a call ends,
  the simulation of a call answers, the user presses one of the two buttons of a call's
  dialog, a form control reports a new value, the component is removed.
\<close>

datatype happening =
    IndexNameBlurs
  | DelayEnds nat
  | SimulationAnswers nat "(obj server_response option, unit) awaited"
  | PressOverwrite nat
  | PressMerge nat
  | ControlReports "string list" json
  | ComponentRemoved

fun session_step ::
  "bool \<Rightarrow> bool \<Rightarrow> (json \<Rightarrow> json) \<Rightarrow> (json \<Rightarrow> json) \<Rightarrow> happening \<Rightarrow> session \<Rightarrow> session" where
  "session_step same_simulate sim toObject toArray IndexNameBlurs ss =
     ss\<lparr>handlers := handlers ss @ [(memo ss, Delaying)]\<rparr>"
| "session_step same_simulate sim toObject toArray (DelayEnds i) ss =
     proceed same_simulate i (\<lambda>finalValue stage s.
        case stage of Delaying \<Rightarrow> Some (delay_elapsed sim finalValue s) | _ \<Rightarrow> None) ss"
| "session_step same_simulate sim toObject toArray (SimulationAnswers i result) ss =
     proceed same_simulate i (\<lambda>finalValue stage s.
        case stage of Simulating name \<Rightarrow> Some (simulation_returned toArray result s) | _ \<Rightarrow> None) ss"
| "session_step same_simulate sim toObject toArray (PressOverwrite i) ss =
     proceed same_simulate i (\<lambda>finalValue stage s.
        case stage of Confirming response \<Rightarrow> Some (confirm_ok toArray response s) | _ \<Rightarrow> None) ss"
| "session_step same_simulate sim toObject toArray (PressMerge i) ss =
     proceed same_simulate i (\<lambda>finalValue stage s.
        case stage of Confirming response \<Rightarrow>
            Some (confirm_cancel toObject toArray finalValue response s)
        | _ \<Rightarrow> None) ss"
| "session_step same_simulate sim toObject toArray (ControlReports name val) ss = change same_simulate name val ss"
| "session_step same_simulate sim toObject toArray ComponentRemoved ss =
     ss\<lparr>detail := (detail ss)\<lparr>destroyRef := True\<rparr>\<rparr>"

definition session_run ::
  "bool \<Rightarrow> bool \<Rightarrow> (json \<Rightarrow> json) \<Rightarrow> (json \<Rightarrow> json) \<Rightarrow> happening list \<Rightarrow> session \<Rightarrow> session" where
  "session_run same_simulate sim toObject toArray happenings ss =
     foldl (\<lambda>q e. session_step same_simulate sim toObject toArray e q) ss happenings"

section \<open>Properties of the object model\<close>

subsection \<open>Array-index keys\<close>

lemma is_digit_iff: "is_digit c \<longleftrightarrow> 48 \<le> (of_char c :: nat) \<and> (of_char c :: nat) \<le> 57"
  by (simp add: is_digit_def less_eq_char_def)

lemma digit_val_inj: "is_digit c \<Longrightarrow> is_digit d \<Longrightarrow> digit_val c = digit_val d \<Longrightarrow> c = d"
proof -
  assume "is_digit c" "is_digit d" "digit_val c = digit_val d"
  then have "(of_char c :: nat) = of_char d"
    unfolding is_digit_iff digit_val_def by linarith
  then show "c = d" by simp
qed

lemma digit_val_lt: "is_digit c \<Longrightarrow> digit_val c < 10"
  by (auto simp: is_digit_iff digit_val_def)

lemma digit_val_zero: "is_digit c \<Longrightarrow> digit_val c = 0 \<longleftrightarrow> c = CHR ''0''"
  using digit_val_inj [of c "CHR ''0''"] by (auto simp: is_digit_iff digit_val_def)

lemma decimal_snoc: "decimal (s @ [c]) = 10 * decimal s + digit_val c"
  by (simp add: decimal_def)

lemma decimal_pos: "s \<noteq> [] \<Longrightarrow> list_all is_digit s \<Longrightarrow> hd s \<noteq> CHR ''0'' \<Longrightarrow> 0 < decimal s"
proof (induction s rule: rev_induct)
  case Nil
  then show ?case by simp
next
  case (snoc c s)
  show ?case
  proof (cases "s = []")
    case True
    with snoc.prems have "is_digit c" "c \<noteq> CHR ''0''" by auto
    then have "digit_val c \<noteq> 0" by (simp add: digit_val_zero)
    with True show ?thesis by (simp add: decimal_def)
  next
    case False
    with snoc have "0 < decimal s" by simp
    then show ?thesis by (simp add: decimal_snoc)
  qed
qed

lemma decimal_inj_nz:
  "list_all is_digit s \<Longrightarrow> list_all is_digit t \<Longrightarrow> (s = [] \<or> hd s \<noteq> CHR ''0'') \<Longrightarrow>
   (t = [] \<or> hd t \<noteq> CHR ''0'') \<Longrightarrow> decimal s = decimal t \<Longrightarrow> s = t"
proof (induction s arbitrary: t rule: rev_induct)
  case Nil
  show ?case
  proof (cases "t = []")
    case True
    then show ?thesis by simp
  next
    case False
    with Nil have "0 < decimal t" by (auto intro: decimal_pos)
    with Nil show ?thesis by (simp add: decimal_def)
  qed
next
  case (snoc c s)
  have pos: "0 < decimal (s @ [c])"
    using snoc.prems by (intro decimal_pos) auto
  show ?case
  proof (cases t rule: rev_cases)
    case Nil
    with pos snoc.prems show ?thesis by (simp add: decimal_def)
  next
    case (snoc t' d)
    have dc: "is_digit c" "is_digit d" "list_all is_digit s" "list_all is_digit t'"
      using snoc.prems snoc by auto
    have eq: "10 * decimal s + digit_val c = 10 * decimal t' + digit_val d"
      using snoc.prems snoc by (simp add: decimal_snoc)
    have lt: "digit_val c < 10" "digit_val d < 10"
      using dc by (auto intro: digit_val_lt)
    from eq lt have "digit_val c = digit_val d" "decimal s = decimal t'"
      by presburger+
    moreover have "s = [] \<or> hd s \<noteq> CHR ''0''"
      using snoc.prems by (cases s) auto
    moreover have "t' = [] \<or> hd t' \<noteq> CHR ''0''"
      using snoc.prems snoc by (cases t') auto
    ultimately have "s = t'" "c = d"
      using snoc.IH [of t'] dc digit_val_inj by auto
    with snoc show ?thesis by simp
  qed
qed

lemma decimal_inj:
  assumes "is_array_index s" "is_array_index t" "decimal s = decimal t"
  shows "s = t"
proof (cases "s = ''0'' \<or> t = ''0''")
  case True
  have z: "decimal ''0'' = 0" by (simp add: decimal_def digit_val_def)
  from True show ?thesis
  proof
    assume s: "s = ''0''"
    show ?thesis
    proof (rule ccontr)
      assume "s \<noteq> t"
      with s assms have "0 < decimal t"
        by (intro decimal_pos) (auto simp: is_array_index_def)
      with s z assms show False by simp
    qed
  next
    assume t: "t = ''0''"
    show ?thesis
    proof (rule ccontr)
      assume "s \<noteq> t"
      with t assms have "0 < decimal s"
        by (intro decimal_pos) (auto simp: is_array_index_def)
      with t z assms show False by simp
    qed
  qed
next
  case False
  with assms show ?thesis
    by (intro decimal_inj_nz) (auto simp: is_array_index_def)
qed


lemma own_key_order_distinct: "own_key_order ks \<Longrightarrow> distinct ks"
  by (induction ks) auto

lemma own_key_order_snoc:
  "own_key_order (ks @ [k]) \<longleftrightarrow>
     own_key_order ks \<and> k \<notin> set ks \<and>
     (is_array_index k \<longrightarrow> (\<forall>k' \<in> set ks. is_array_index k' \<and> decimal k' < decimal k))"
  by (induction ks) auto

lemma own_key_order_prefix: "own_key_order (ks @ ks') \<Longrightarrow> own_key_order ks"
  by (induction ks) auto

lemma set_ins_index: "set (ins_index k v es) = insert (k, v) (set es)"
  by (induction es) (auto split: if_splits)

lemma fst_ins_index: "fst ` set (ins_index k v es) = insert k (fst ` set es)"
  by (simp add: set_ins_index)

lemma own_key_order_Cons_index:
  "is_array_index k \<Longrightarrow>
   own_key_order (k # ks) \<longleftrightarrow>
     k \<notin> set ks \<and> own_key_order ks \<and> (\<forall>k' \<in> set ks. is_array_index k' \<longrightarrow> decimal k < decimal k')"
  by simp

lemma ins_index_order:
  assumes "own_key_order (map fst es)" "k \<notin> fst ` set es" "is_array_index k"
  shows "own_key_order (map fst (ins_index k v es))"
  using assms
proof (induction es)
  case Nil
  then show ?case by simp
next
  case (Cons e es)
  obtain k' v' where e: "e = (k', v')" by (cases e)
  from Cons.prems e have ne: "k \<noteq> k'" and new: "k \<notin> fst ` set es" by auto
  from Cons.prems(1) e have tail: "own_key_order (map fst es)" and fresh: "k' \<notin> fst ` set es"
    and idx: "is_array_index k' \<Longrightarrow> \<forall>k'' \<in> fst ` set es. is_array_index k'' \<longrightarrow> decimal k' < decimal k''"
    and nidx: "\<not> is_array_index k' \<Longrightarrow> \<forall>k'' \<in> fst ` set es. \<not> is_array_index k''"
    by (simp_all split: if_splits)
  show ?case
  proof (cases "is_array_index k' \<and> decimal k' < decimal k")
    case True
    have "own_key_order (map fst (ins_index k v es))"
      using tail new Cons.prems(3) by (rule Cons.IH)
    moreover have "k' \<notin> fst ` set (ins_index k v es)"
      using ne fresh by (simp add: fst_ins_index)
    moreover have "\<forall>k'' \<in> fst ` set (ins_index k v es). is_array_index k'' \<longrightarrow> decimal k' < decimal k''"
      using idx True by (simp add: fst_ins_index)
    ultimately have "own_key_order (k' # map fst (ins_index k v es))"
      using True by (simp only: own_key_order_Cons_index set_map simp_thms)
    moreover have "ins_index k v (e # es) = (k', v') # ins_index k v es"
      unfolding e by (simp only: ins_index.simps True if_True simp_thms)
    then have "map fst (ins_index k v (e # es)) = k' # map fst (ins_index k v es)"
      by (simp only: list.map fst_conv)
    ultimately show ?thesis by (simp only:)
  next
    case False
    have first: "decimal k < decimal k'" if "is_array_index k'"
    proof -
      from decimal_inj [of k k'] that Cons.prems(3) ne have "decimal k \<noteq> decimal k'" by blast
      with False that show ?thesis by simp
    qed
    have rest: "decimal k < decimal k''" if "k'' \<in> fst ` set es" "is_array_index k''" for k''
    proof (cases "is_array_index k'")
      case True
      with idx that have "decimal k' < decimal k''" by blast
      with first [OF True] show ?thesis by simp
    next
      case False
      with nidx that show ?thesis by blast
    qed
    have "k \<notin> set (k' # map fst es)" using ne new by simp
    moreover have "own_key_order (k' # map fst es)" using Cons.prems(1) e by simp
    moreover have "\<forall>k'' \<in> set (k' # map fst es). is_array_index k'' \<longrightarrow> decimal k < decimal k''"
      using first rest by auto
    ultimately have "own_key_order (k # k' # map fst es)"
      by (simp only: own_key_order_Cons_index [OF Cons.prems(3)] simp_thms)
    moreover have "ins_index k v (e # es) = (k, v) # (k', v') # es"
      unfolding e by (simp only: ins_index.simps False if_False simp_thms)
    then have "map fst (ins_index k v (e # es)) = k # k' # map fst es"
      by (simp only: list.map fst_conv)
    ultimately show ?thesis by (simp only:)
  qed
qed

lemma ins_index_append:
  "\<forall>k' \<in> set (map fst es). is_array_index k' \<and> decimal k' < decimal k \<Longrightarrow>
   ins_index k v es = es @ [(k, v)]"
  by (induction es) auto

lemma ins_index_filter:
  "is_array_index k \<Longrightarrow>
   filter (\<lambda>e. \<not> is_array_index (fst e)) (ins_index k v es) = filter (\<lambda>e. \<not> is_array_index (fst e)) es"
  by (induction es) auto

lemma map_of_ins_index:
  "k \<notin> fst ` set es \<Longrightarrow> map_of (ins_index k v es) = (map_of es)(k \<mapsto> v)"
  by (induction es) (auto simp: fun_upd_twist)

lemma upd_keys: "map fst (map (\<lambda>(k', v'). (k', if k' = k then v else v')) es) = map fst es"
  by (induction es) auto

lemma put_old:
  "k \<in> fst ` set es \<Longrightarrow> put k v es = map (\<lambda>(k', v'). (k', if k' = k then v else v')) es"
  by (simp add: put_def)

lemma put_new:
  "k \<notin> fst ` set es \<Longrightarrow>
   put k v es = (if is_array_index k then ins_index k v es else es @ [(k, v)])"
  by (simp add: put_def)

lemma put_keys: "fst ` set (put k v es) = insert k (fst ` set es)"
proof (cases "k \<in> fst ` set es")
  case True
  have "fst ` set (put k v es) = set (map fst (put k v es))" by simp
  also have "\<dots> = set (map fst es)" using True by (simp only: put_old upd_keys)
  finally show ?thesis using True by auto
next
  case False
  then show ?thesis by (simp add: put_new fst_ins_index)
qed

lemma put_new_set: "k \<notin> fst ` set es \<Longrightarrow> set (put k v es) = insert (k, v) (set es)"
  by (simp add: put_new set_ins_index)

lemma put_wf:
  assumes "wf_obj es"
  shows "wf_obj (put k v es)"
proof (cases "k \<in> fst ` set es")
  case True
  then show ?thesis using assms by (simp only: put_old wf_obj_def upd_keys)
next
  case False
  show ?thesis
  proof (cases "is_array_index k")
    case True
    with False assms show ?thesis by (simp add: put_new wf_obj_def ins_index_order)
  next
    case idx: False
    with False assms show ?thesis by (simp add: put_new wf_obj_def own_key_order_snoc)
  qed
qed

lemma put_snoc:
  assumes "wf_obj (es @ [(k, v)])"
  shows "put k v es = es @ [(k, v)]"
proof -
  from assms have new: "k \<notin> fst ` set es"
    and idx: "is_array_index k \<longrightarrow> (\<forall>k' \<in> set (map fst es). is_array_index k' \<and> decimal k' < decimal k)"
    by (simp_all add: wf_obj_def own_key_order_snoc)
  show ?thesis
  proof (cases "is_array_index k")
    case True
    with idx have "ins_index k v es = es @ [(k, v)]" by (intro ins_index_append) blast
    with new True show ?thesis by (simp add: put_new)
  next
    case False
    with new show ?thesis by (simp add: put_new)
  qed
qed

lemma wf_obj_prefix: "wf_obj (es @ es') \<Longrightarrow> wf_obj es"
  by (simp add: wf_obj_def own_key_order_prefix)

lemma wf_obj_distinct: "wf_obj es \<Longrightarrow> distinct (map fst es)"
  by (simp add: wf_obj_def own_key_order_distinct)

lemma put_filter_new:
  "k \<notin> fst ` set es \<Longrightarrow>
   filter (\<lambda>e. \<not> is_array_index (fst e)) (put k v es) =
     filter (\<lambda>e. \<not> is_array_index (fst e)) es @ (if is_array_index k then [] else [(k, v)])"
  by (simp add: put_new ins_index_filter)

lemma map_of_upd_same:
  "k \<in> fst ` set es \<Longrightarrow>
   map_of (map (\<lambda>(k', v'). (k', if k' = k then v else v')) es) k = Some v"
  by (induction es) (auto split: if_splits)

lemma map_of_upd_other:
  "k' \<noteq> k \<Longrightarrow>
   map_of (map (\<lambda>(k', v'). (k', if k' = k then v else v')) es) k' = map_of es k'"
  by (induction es) (auto split: if_splits)

lemma map_of_snoc_new:
  "k \<notin> fst ` set es \<Longrightarrow> map_of (es @ [(k, v)]) = (map_of es)(k \<mapsto> v)"
  by (induction es) (auto simp: fun_upd_twist)

lemma map_of_put: "map_of (put k v es) = (map_of es)(k \<mapsto> v)"
proof (cases "k \<in> fst ` set es")
  case True
  show ?thesis
  proof
    fix k'
    show "map_of (put k v es) k' = ((map_of es)(k \<mapsto> v)) k'"
      using True by (cases "k' = k") (simp_all add: put_old map_of_upd_same map_of_upd_other)
  qed
next
  case False
  then show ?thesis
    by (simp add: put_new map_of_ins_index map_of_snoc_new del: map_of_append)
qed

lemma spread_into_snoc: "spread_into t (es @ [(k, v)]) = put k v (spread_into t es)"
  by (simp add: spread_into_def)

lemma spread_into_Nil: "spread_into t [] = t"
  by (simp add: spread_into_def)

lemma spread_into_wf: "wf_obj t \<Longrightarrow> wf_obj (spread_into t es)"
proof (induction es rule: rev_induct)
  case Nil
  then show ?case by (simp add: spread_into_Nil)
next
  case (snoc e es)
  obtain k v where e: "e = (k, v)" by (cases e)
  from snoc show ?case unfolding e spread_into_snoc by (intro put_wf) simp
qed

lemma spread_into_keys: "fst ` set (spread_into t es) = fst ` set t \<union> fst ` set es"
proof (induction es rule: rev_induct)
  case Nil
  show ?case by (simp add: spread_into_Nil)
next
  case (snoc e es)
  obtain k v where e: "e = (k, v)" by (cases e)
  have "fst ` set (spread_into t (es @ [e])) = insert k (fst ` set (spread_into t es))"
    unfolding e spread_into_snoc by (rule put_keys)
  with snoc e show ?case by auto
qed

lemma spread_into_identity: "wf_obj es \<Longrightarrow> spread_into [] es = es"
proof (induction es rule: rev_induct)
  case Nil
  show ?case by (simp add: spread_into_def)
next
  case (snoc e es)
  obtain k v where e: "e = (k, v)" by (cases e)
  from snoc have "spread_into [] es = es" by (auto dest: wf_obj_prefix)
  with snoc.prems e show ?case by (simp add: spread_into_snoc put_snoc)
qed

lemma spread_into_set:
  "distinct (map fst es) \<Longrightarrow> set (spread_into [] es) = set es"
proof (induction es rule: rev_induct)
  case Nil
  show ?case by (simp add: spread_into_def)
next
  case (snoc e es)
  obtain k v where e: "e = (k, v)" by (cases e)
  from snoc e have "k \<notin> fst ` set (spread_into [] es)"
    by (auto simp: spread_into_keys)
  with snoc e show ?case by (simp add: spread_into_snoc put_new_set)
qed

lemma spread_into_filter:
  "distinct (map fst es) \<Longrightarrow>
   filter (\<lambda>e. \<not> is_array_index (fst e)) (spread_into [] es) = filter (\<lambda>e. \<not> is_array_index (fst e)) es"
proof (induction es rule: rev_induct)
  case Nil
  show ?case by (simp add: spread_into_def)
next
  case (snoc e es)
  obtain k v where e: "e = (k, v)" by (cases e)
  from snoc e have "k \<notin> fst ` set (spread_into [] es)"
    by (auto simp: spread_into_keys)
  with snoc e show ?case by (simp add: spread_into_snoc put_filter_new)
qed

lemma reduce_spread:
  "wf_obj t \<Longrightarrow>
   foldl (\<lambda>total e. put (f e) (g e) (spread_into [] total)) t xs = spread_into t (map (\<lambda>e. (f e, g e)) xs)"
proof (induction xs arbitrary: t)
  case Nil
  show ?case by (simp add: spread_into_def)
next
  case (Cons x xs)
  from Cons.prems have "spread_into [] t = t" by (rule spread_into_identity)
  moreover from Cons.prems have "wf_obj (put (f x) (g x) t)" by (rule put_wf)
  ultimately show ?case using Cons.IH [of "put (f x) (g x) t"]
    by (simp add: spread_into_def)
qed

subsection \<open>Sorting entries by key\<close>

lemma set_insert_by: "set (insert_by cmp x ys) = insert x (set ys)"
  by (induction ys) auto

lemma set_sort_by: "set (sort_by cmp xs) = set xs"
  by (induction xs) (simp_all add: sort_by_def set_insert_by)

lemma distinct_keys_insert_by:
  "distinct (map fst (insert_by cmp x ys)) \<longleftrightarrow> fst x \<notin> fst ` set ys \<and> distinct (map fst ys)"
  by (induction ys) (auto simp: set_insert_by)

lemma sort_by_Cons: "sort_by cmp (x # xs) = insert_by cmp x (sort_by cmp xs)"
  by (simp add: sort_by_def)

lemma distinct_keys_sort_by:
  "distinct (map fst (sort_by cmp xs)) \<longleftrightarrow> distinct (map fst xs)"
proof (induction xs)
  case Nil
  show ?case by (simp add: sort_by_def)
next
  case (Cons x xs)
  then show ?case
    by (simp add: sort_by_Cons distinct_keys_insert_by set_sort_by)
qed

lemma sorted_insert_by:
  "sorted (map fst ys) \<Longrightarrow> sorted (map fst (insert_by compare_keys x ys))"
  by (induction ys) (auto simp: compare_keys_def set_insert_by)

lemma sorted_sort_by: "sorted (map fst (sort_by compare_keys xs))"
  by (induction xs) (simp_all add: sort_by_Cons sorted_insert_by, simp add: sort_by_def)

lemma sorted_keys_unique:
  assumes "sorted (map fst a)" "sorted (map fst b)" "distinct (map fst a)" "distinct (map fst b)"
    and "set a = set b"
  shows "a = b"
proof -
  have "set (map fst a) = set (map fst b)" using assms by simp
  with assms have keys: "map fst a = map fst b"
    by (intro sorted_distinct_set_unique)
  have "inj_on fst (set a \<union> set b)"
    using assms by (simp add: distinct_map)
  with keys show ?thesis by (rule map_inj_on)
qed

lemma sorted_filter_keys:
  "sorted (map fst es) \<Longrightarrow> sorted (filter P (map fst es))"
  by (rule sorted_wrt_filter)

subsection \<open>getOrderedJson\<close>

lemma wf_obj_Nil: "wf_obj []"
  by (simp add: wf_obj_def)

lemma getOrderedJson_spread: "getOrderedJson json = spread_into [] (sort_by compare_keys json)"
proof -
  from reduce_spread [OF wf_obj_Nil, of fst snd] show ?thesis
    by (simp add: getOrderedJson_def case_prod_unfold)
qed

lemma getOrderedJson_set:
  "distinct (map fst json) \<Longrightarrow> set (getOrderedJson json) = set json"
  by (simp add: getOrderedJson_spread spread_into_set distinct_keys_sort_by set_sort_by)

lemma getOrderedJson_wf: "wf_obj (getOrderedJson json)"
  unfolding getOrderedJson_spread by (rule spread_into_wf) (rule wf_obj_Nil)

lemma getOrderedJson_rest_sorted:
  assumes "distinct (map fst json)"
  shows "sorted (filter (\<lambda>k. \<not> is_array_index k) (map fst (getOrderedJson json)))"
proof -
  let ?s = "sort_by compare_keys json"
  have "filter (\<lambda>e. \<not> is_array_index (fst e)) (getOrderedJson json) =
        filter (\<lambda>e. \<not> is_array_index (fst e)) ?s"
    using assms by (simp add: getOrderedJson_spread spread_into_filter distinct_keys_sort_by)
  then have "filter (\<lambda>k. \<not> is_array_index k) (map fst (getOrderedJson json)) =
        filter (\<lambda>k. \<not> is_array_index k) (map fst ?s)"
    by (simp add: filter_map comp_def)
  then show ?thesis
    by (simp add: sorted_filter_keys sorted_sort_by)
qed

lemma getOrderedJson_idem:
  assumes "distinct (map fst json)"
  shows "getOrderedJson (getOrderedJson json) = getOrderedJson json"
proof -
  let ?r = "getOrderedJson json"
  have "distinct (map fst ?r)"
    using getOrderedJson_wf [of json] by (rule wf_obj_distinct)
  moreover have "set ?r = set json" using assms by (rule getOrderedJson_set)
  ultimately have "sort_by compare_keys ?r = sort_by compare_keys json"
    using assms by (intro sorted_keys_unique) (simp_all add: sorted_sort_by distinct_keys_sort_by set_sort_by)
  then show ?thesis by (simp add: getOrderedJson_spread)
qed

subsection \<open>AliasSelect conversions\<close>

lemma transformArrayToObj_spread:
  "transformArrayToObj array = spread_into [] (map (\<lambda>c. (label c, JObj PlainObject [])) array)"
  unfolding transformArrayToObj_def by (rule reduce_spread) (rule wf_obj_Nil)

lemma transformArrayToObj_wf: "wf_obj (transformArrayToObj array)"
  unfolding transformArrayToObj_spread by (rule spread_into_wf) (rule wf_obj_Nil)

lemma transformArrayToObj_keys: "fst ` set (transformArrayToObj array) = label ` set array"
  by (simp add: transformArrayToObj_spread spread_into_keys image_image)

lemma labels_of_transformObjToArray: "map label (transformObjToArray (Some es)) = map fst es"
  by (simp add: transformObjToArray_def comp_def)

lemma new_Set_snoc: "new_Set (xs @ [x]) = (if x \<in> set (new_Set xs) then new_Set xs else new_Set xs @ [x])"
  by (simp add: new_Set_def)

lemma new_Set_Nil: "new_Set [] = []"
  by (simp add: new_Set_def)

lemma set_new_Set: "set (new_Set xs) = set xs"
  by (induction xs rule: rev_induct) (auto simp: new_Set_snoc new_Set_Nil)

lemma distinct_new_Set: "distinct (new_Set xs)"
  by (induction xs rule: rev_induct) (auto simp: new_Set_snoc new_Set_Nil)

subsection \<open>Reading what was written\<close>

lemma get_own_put: "get_own (put k v es) k' = (if k' = k then v else get_own es k')"
  by (simp add: get_own_def map_of_put)

lemma get_own_absent: "k \<notin> fst ` set es \<Longrightarrow> get_own es k = JUndefined"
proof -
  assume "k \<notin> fst ` set es"
  then have "map_of es k = None" by (simp add: map_of_eq_None_iff)
  then show ?thesis by (simp add: get_own_def)
qed

lemma keys_put: "set (map fst (put k v es)) = insert k (set (map fst es))"
  using put_keys [of k v es] by simp

lemma spread_into_copy: "wf_obj es \<Longrightarrow> spread_into [] es = es"
  by (rule spread_into_identity)

subsection \<open>Calls of the blur handler\<close>

lemma count_list_update:
  "i < length xs \<Longrightarrow>
   length (filter P (xs[i := y])) + (if P (xs ! i) then 1 else 0) =
   length (filter P xs) + (if P y then 1 else 0)"
proof (induction xs arbitrary: i)
  case Nil
  then show ?case by simp
next
  case (Cons x xs)
  show ?case
  proof (cases i)
    case 0
    then show ?thesis by simp
  next
    case (Suc j)
    with Cons.prems have "j < length xs" by simp
    from Cons.IH [OF this] Suc show ?thesis by simp
  qed
qed

lemma delay_elapsed_stage:
  "snd (delay_elapsed sim finalValue s) = Finished \<or>
   (\<exists>name. snd (delay_elapsed sim finalValue s) = Simulating name)"
  by (simp add: delay_elapsed_def)

lemma simulation_returned_stage:
  "snd (simulation_returned toArray result s) = Finished \<or>
   (\<exists>response. snd (simulation_returned toArray result s) = Confirming response)"
  by (simp add: simulation_returned_def Let_def split: awaited.splits option.splits server_response.splits)

lemma resume_counts:
  assumes "call_counts p"
    and "\<And>finalValue stage s stage'. piece finalValue stage = Some (s, stage') \<Longrightarrow>
           (stage = Delaying \<and> (stage' = Finished \<or> (\<exists>name. stage' = Simulating name))) \<or>
           ((\<exists>name. stage = Simulating name) \<and> (stage' = Finished \<or> (\<exists>r. stage' = Confirming r))) \<or>
           ((\<exists>r. stage = Confirming r) \<and> stage' = Finished)"
  shows "call_counts (resume i piece p)"
proof (cases "i < length (calls p)")
  case False
  with assms(1) show ?thesis by (simp add: resume_def)
next
  case True
  show ?thesis
  proof (cases "piece (fst (calls p ! i)) (snd (calls p ! i))")
    case None
    with True assms(1) show ?thesis by (simp add: resume_def)
  next
    case (Some r)
    obtain s stage' where r: "r = (s, stage')" by (cases r)
    let ?old = "calls p ! i"
    let ?new = "(fst ?old, stage')"
    let ?sim = "\<lambda>c. case snd c of Simulating name \<Rightarrow> True | _ \<Rightarrow> False"
    let ?del = "\<lambda>c :: obj \<times> blur_stage. snd c = Delaying"
    have q: "resume i piece p =
        p\<lparr>component := s, calls := (calls p)[i := ?new],
          requests := (case stage' of Simulating name \<Rightarrow> Suc (requests p) | _ \<Rightarrow> requests p)\<rparr>"
      using True Some r by (simp add: resume_def)
    have sim: "length (filter ?sim ((calls p)[i := ?new])) + (if ?sim ?old then 1 else 0) =
        length (filter ?sim (calls p)) + (if ?sim ?new then 1 else 0)"
      using True by (rule count_list_update)
    have del: "length (filter ?del ((calls p)[i := ?new])) + (if ?del ?old then 1 else 0) =
        length (filter ?del (calls p)) + (if ?del ?new then 1 else 0)"
      using True by (rule count_list_update)
    from assms(2) [of "fst ?old" "snd ?old" s stage'] Some r
    consider
        (a) "snd ?old = Delaying" "stage' = Finished"
      | (b) name where "snd ?old = Delaying" "stage' = Simulating name"
      | (c) name where "snd ?old = Simulating name" "stage' = Finished"
      | (d) name r' where "snd ?old = Simulating name" "stage' = Confirming r'"
      | (e) r' where "snd ?old = Confirming r'" "stage' = Finished"
      by auto
    then show ?thesis
    proof cases
      case a
      with sim del assms(1) show ?thesis
        by (simp add: q call_counts_def in_flight_def delaying_def)
    next
      case b
      with sim del assms(1) show ?thesis
        by (simp add: q call_counts_def in_flight_def delaying_def)
    next
      case c
      with sim del assms(1) show ?thesis
        by (simp add: q call_counts_def in_flight_def delaying_def)
    next
      case d
      with sim del assms(1) show ?thesis
        by (simp add: q call_counts_def in_flight_def delaying_def)
    next
      case e
      with sim del assms(1) show ?thesis
        by (simp add: q call_counts_def in_flight_def delaying_def)
    qed
  qed
qed

lemma step_counts:
  assumes "call_counts p"
  shows "call_counts (step sim toObject toArray e p)"
proof (cases e)
  case (Blur finalValue)
  with assms show ?thesis
    by (simp add: call_counts_def in_flight_def delaying_def)
next
  case (DelayOver i)
  have "call_counts (resume i (\<lambda>finalValue stage.
        case stage of Delaying \<Rightarrow> Some (delay_elapsed sim finalValue (component p)) | _ \<Rightarrow> None) p)"
  proof (rule resume_counts [OF assms])
    fix finalValue stage s stage'
    assume "(case stage of Delaying \<Rightarrow> Some (delay_elapsed sim finalValue (component p)) | _ \<Rightarrow> None) =
        Some (s, stage')"
    then have "stage = Delaying" and "delay_elapsed sim finalValue (component p) = (s, stage')"
      by (auto split: blur_stage.splits)
    with delay_elapsed_stage [of sim finalValue "component p"]
    show "(stage = Delaying \<and> (stage' = Finished \<or> (\<exists>name. stage' = Simulating name))) \<or>
           ((\<exists>name. stage = Simulating name) \<and> (stage' = Finished \<or> (\<exists>r. stage' = Confirming r))) \<or>
           ((\<exists>r. stage = Confirming r) \<and> stage' = Finished)"
      by auto
  qed
  with DelayOver show ?thesis by simp
next
  case (SimulationAnswer i result)
  have "call_counts (resume i (\<lambda>finalValue stage.
        case stage of Simulating name \<Rightarrow> Some (simulation_returned toArray result (component p)) | _ \<Rightarrow> None) p)"
  proof (rule resume_counts [OF assms])
    fix finalValue stage s stage'
    assume "(case stage of Simulating name \<Rightarrow> Some (simulation_returned toArray result (component p)) | _ \<Rightarrow> None) =
        Some (s, stage')"
    then have "\<exists>name. stage = Simulating name"
      and "simulation_returned toArray result (component p) = (s, stage')"
      by (auto split: blur_stage.splits)
    with simulation_returned_stage [of toArray result "component p"]
    show "(stage = Delaying \<and> (stage' = Finished \<or> (\<exists>name. stage' = Simulating name))) \<or>
           ((\<exists>name. stage = Simulating name) \<and> (stage' = Finished \<or> (\<exists>r. stage' = Confirming r))) \<or>
           ((\<exists>r. stage = Confirming r) \<and> stage' = Finished)"
      by auto
  qed
  with SimulationAnswer show ?thesis by simp
next
  case (ClickOverwrite i)
  have "call_counts (resume i (\<lambda>finalValue stage.
        case stage of Confirming response \<Rightarrow> Some (confirm_ok toArray response (component p)) | _ \<Rightarrow> None) p)"
  proof (rule resume_counts [OF assms])
    fix finalValue stage s stage'
    assume "(case stage of Confirming response \<Rightarrow> Some (confirm_ok toArray response (component p)) | _ \<Rightarrow> None) =
        Some (s, stage')"
    then have "(\<exists>r. stage = Confirming r) \<and> stage' = Finished"
      by (auto simp: confirm_ok_def split: blur_stage.splits)
    then show "(stage = Delaying \<and> (stage' = Finished \<or> (\<exists>name. stage' = Simulating name))) \<or>
           ((\<exists>name. stage = Simulating name) \<and> (stage' = Finished \<or> (\<exists>r. stage' = Confirming r))) \<or>
           ((\<exists>r. stage = Confirming r) \<and> stage' = Finished)"
      by blast
  qed
  with ClickOverwrite show ?thesis by simp
next
  case (ClickMerge i)
  have "call_counts (resume i (\<lambda>finalValue stage.
        case stage of Confirming response \<Rightarrow>
            Some (confirm_cancel toObject toArray finalValue response (component p))
        | _ \<Rightarrow> None) p)"
  proof (rule resume_counts [OF assms])
    fix finalValue stage s stage'
    assume "(case stage of Confirming response \<Rightarrow>
            Some (confirm_cancel toObject toArray finalValue response (component p))
        | _ \<Rightarrow> None) = Some (s, stage')"
    then have "(\<exists>r. stage = Confirming r) \<and> stage' = Finished"
      by (auto simp: confirm_cancel_def split: blur_stage.splits)
    then show "(stage = Delaying \<and> (stage' = Finished \<or> (\<exists>name. stage' = Simulating name))) \<or>
           ((\<exists>name. stage = Simulating name) \<and> (stage' = Finished \<or> (\<exists>r. stage' = Confirming r))) \<or>
           ((\<exists>r. stage = Confirming r) \<and> stage' = Finished)"
      by blast
  qed
  with ClickMerge show ?thesis by simp
next
  case (Edit name val)
  with assms show ?thesis
    by (simp add: call_counts_def in_flight_def delaying_def)
next
  case Unmount
  with assms show ?thesis
    by (simp add: call_counts_def in_flight_def delaying_def)
qed

lemma length_calls_resume: "length (calls (resume i piece p)) = length (calls p)"
  by (simp add: resume_def split: option.splits prod.splits)

lemma length_calls_step:
  "length (calls (step sim toObject toArray e p)) =
   length (calls p) + (case e of Blur finalValue \<Rightarrow> 1 | _ \<Rightarrow> 0)"
  by (cases e) (simp_all add: length_calls_resume)

lemma run_snoc:
  "run sim toObject toArray (events @ [e]) p = step sim toObject toArray e (run sim toObject toArray events p)"
  by (simp add: run_def)

lemma run_Nil: "run sim toObject toArray [] p = p"
  by (simp add: run_def)

lemma run_counts:
  "call_counts p \<Longrightarrow> call_counts (run sim toObject toArray events p)"
  by (induction events rule: rev_induct) (simp_all add: run_snoc run_Nil step_counts)

lemma blurs_snoc: "blurs (events @ [e]) = blurs events + (case e of Blur finalValue \<Rightarrow> 1 | _ \<Rightarrow> 0)"
  by (cases e) (simp_all add: blurs_def)

lemma run_calls:
  "length (calls (run sim toObject toArray events p)) = length (calls p) + blurs events"
proof (induction events rule: rev_induct)
  case Nil
  show ?case by (simp add: run_Nil blurs_def)
next
  case (snoc e events)
  then show ?case
    by (simp add: run_snoc length_calls_step blurs_snoc)
qed

subsection \<open>The deep merge\<close>

lemma lookup_undefined: "lookup JUndefined path = JUndefined"
  by (induction path) simp_all

lemma lookup_leaf: "is_leaf v \<Longrightarrow> path \<noteq> [] \<Longrightarrow> lookup v path = JUndefined"
  by (cases path; cases v) (simp_all add: lookup_undefined)

lemma merge_base_object: "is_object (merge_base objValue kind)"
  by (cases kind; cases objValue) (auto split: okind.splits)

lemma assignMergeValue_object:
  "\<exists>es'. assignMergeValue (JObj kind es) k v = JObj kind es' \<and>
         (wf_obj es \<longrightarrow> wf_obj es') \<and>
         (\<forall>k'. get_own es' k' = (if k' = k \<and> v \<noteq> JUndefined then v else get_own es k'))"
proof (cases "v = JUndefined")
  case False
  then show ?thesis
    by (simp add: assignMergeValue_def put_wf get_own_put)
next
  case True
  show ?thesis
  proof (cases "k \<in> set (map fst es)")
    case True
    with \<open>v = JUndefined\<close> show ?thesis
      by (simp add: assignMergeValue_def)
  next
    case False
    then have "get_own es k = JUndefined" by (simp add: get_own_absent)
    with False \<open>v = JUndefined\<close> show ?thesis
      by (simp add: assignMergeValue_def put_wf get_own_put)
  qed
qed

lemma merge_props_object:
  "\<exists>es'. merge_props (JObj kind es) ps = JObj kind es' \<and> (wf_obj es \<longrightarrow> wf_obj es')"
proof (induction ps arbitrary: es)
  case Nil
  show ?case by simp
next
  case (Cons p ps)
  obtain key srcValue where p: "p = (key, srcValue)" by (cases p)
  let ?x = "case srcValue of
             JObj kind' ps' \<Rightarrow> baseMerge (merge_base (get_prop (JObj kind es) key) kind') srcValue
           | _ \<Rightarrow> srcValue"
  from assignMergeValue_object [of kind es key ?x]
  obtain es1 where es1: "assignMergeValue (JObj kind es) key ?x = JObj kind es1"
    and wf1: "wf_obj es \<longrightarrow> wf_obj es1" by blast
  from Cons.IH [of es1]
  obtain es' where "merge_props (JObj kind es1) ps = JObj kind es'" "wf_obj es1 \<longrightarrow> wf_obj es'"
    by blast
  with es1 wf1 p show ?case by simp
qed

lemma baseMerge_object: "is_object object \<Longrightarrow> is_object (baseMerge object src)"
proof -
  assume "is_object object"
  then obtain kind es where o: "object = JObj kind es" by (cases object) simp_all
  show ?thesis
  proof (cases src)
    case (JObj kind' ps)
    with o merge_props_object [of kind es ps] show ?thesis by auto
  qed (simp_all add: o)
qed

lemma merge_value_defined:
  "srcValue \<noteq> JUndefined \<Longrightarrow>
   (case srcValue of
      JObj kind ps \<Rightarrow> baseMerge (merge_base objValue kind) srcValue
    | _ \<Rightarrow> srcValue) \<noteq> JUndefined"
proof (cases srcValue)
  case (JObj kind ps)
  have "is_object (baseMerge (merge_base objValue kind) srcValue)"
    by (rule baseMerge_object) (rule merge_base_object)
  with JObj show ?thesis by auto
qed simp_all

lemma merge_props_Cons:
  "merge_props (JObj kind es) ((key, srcValue) # rest) =
     merge_props
       (assignMergeValue (JObj kind es) key
          (case srcValue of
             JObj kind' ps' \<Rightarrow> baseMerge (merge_base (get_own es key) kind') srcValue
           | _ \<Rightarrow> srcValue))
       rest"
  by (cases srcValue) simp_all

lemma get_prop_merge_props:
  "distinct (map fst ps) \<Longrightarrow>
   get_prop (merge_props (JObj kind es) ps) k =
     (case map_of ps k of None \<Rightarrow> get_own es k | Some srcValue \<Rightarrow> merge_value (get_own es k) srcValue)"
proof (induction ps arbitrary: es)
  case Nil
  show ?case by simp
next
  case (Cons p ps)
  obtain key srcValue where p: "p = (key, srcValue)" by (cases p)
  let ?x = "case srcValue of
             JObj kind' ps' \<Rightarrow> baseMerge (merge_base (get_own es key) kind') srcValue
           | _ \<Rightarrow> srcValue"
  from assignMergeValue_object [of kind es key ?x]
  obtain es1 where es1: "assignMergeValue (JObj kind es) key ?x = JObj kind es1"
    and get1: "\<And>k'. get_own es1 k' = (if k' = key \<and> ?x \<noteq> JUndefined then ?x else get_own es k')"
    by blast
  from Cons.prems p have d: "distinct (map fst ps)" and fresh: "map_of ps key = None"
    by (auto simp: map_of_eq_None_iff)
  have step: "merge_props (JObj kind es) (p # ps) = merge_props (JObj kind es1) ps"
    unfolding p merge_props_Cons es1 ..
  have ih: "get_prop (merge_props (JObj kind es1) ps) k =
      (case map_of ps k of None \<Rightarrow> get_own es1 k | Some sv \<Rightarrow> merge_value (get_own es1 k) sv)"
    by (rule Cons.IH [OF d])
  show ?case
  proof (cases "k = key")
    case True
    have "get_own es1 key = merge_value (get_own es key) srcValue"
    proof (cases "srcValue = JUndefined")
      case True
      then show ?thesis by (simp add: get1 merge_value_def)
    next
      case False
      then have "?x \<noteq> JUndefined" by (rule merge_value_defined)
      then have "get_own es1 key = ?x" by (simp add: get1)
      also have "?x = merge_value (get_own es key) srcValue"
        using False by (cases srcValue) (simp_all add: merge_value_def)
      finally show ?thesis .
    qed
    moreover from ih True fresh have "get_prop (merge_props (JObj kind es1) ps) k = get_own es1 key"
      by simp
    moreover have "map_of (p # ps) k = Some srcValue" using True p by simp
    ultimately show ?thesis unfolding step using True by simp
  next
    case False
    then have "map_of (p # ps) k = map_of ps k" "get_own es1 k = get_own es k"
      using p by (simp_all add: get1)
    with ih show ?thesis unfolding step by (simp split: option.splits)
  qed
qed

lemma json_trees_iff: "json_trees es \<longleftrightarrow> (\<forall>e \<in> set es. json_tree (snd e))"
  by (induction es) auto

lemma json_tree_member:
  "json_tree (JObj kind ps) \<Longrightarrow> map_of ps k = Some v \<Longrightarrow> json_tree v"
  by (auto simp: json_trees_iff dest!: map_of_SomeD)

lemma json_tree_distinct: "json_tree (JObj kind ps) \<Longrightarrow> distinct (map fst ps)"
  by (simp add: wf_obj_distinct)

lemma get_own_Some: "get_own ps k \<noteq> JUndefined \<Longrightarrow> map_of ps k = Some (get_own ps k)"
  by (cases "map_of ps k") (simp_all add: get_own_def)

text \<open>A leaf of the source is a leaf of the merged object, at the same path.\<close>

lemma merge_source_wins:
  "json_tree src \<Longrightarrow> is_object object \<Longrightarrow> path \<noteq> [] \<Longrightarrow> is_leaf (lookup src path) \<Longrightarrow>
   lookup (baseMerge object src) path = lookup src path"
proof (induction path arbitrary: object src)
  case Nil
  then show ?case by simp
next
  case (Cons k path)
  from Cons.prems(4) have "get_prop src k \<noteq> JUndefined"
    by (auto simp: lookup_undefined)
  then obtain kind ps where src: "src = JObj kind ps"
    by (cases src) simp_all
  from Cons.prems(2) obtain okind es where object: "object = JObj okind es"
    by (cases object) simp_all
  let ?sv = "get_own ps k"
  from \<open>get_prop src k \<noteq> JUndefined\<close> src have sv: "map_of ps k = Some ?sv"
    by (simp add: get_own_Some)
  have merged: "get_prop (baseMerge object src) k = merge_value (get_own es k) ?sv"
    using json_tree_distinct [of kind ps] Cons.prems(1) sv
    by (simp add: src object get_prop_merge_props)
  show ?case
  proof (cases "path = []")
    case True
    with Cons.prems(4) src have "is_leaf ?sv" by simp
    then have "merge_value (get_own es k) ?sv = ?sv"
      by (cases ?sv) (simp_all add: merge_value_def)
    with True merged src show ?thesis by simp
  next
    case False
    have "\<not> is_leaf ?sv"
    proof
      assume "is_leaf ?sv"
      then have "lookup ?sv path = JUndefined" using False by (rule lookup_leaf)
      with Cons.prems(4) src show False by simp
    qed
    moreover have "?sv \<noteq> JUndefined"
      using \<open>get_prop src k \<noteq> JUndefined\<close> src by simp
    ultimately obtain kind' ps' where obj: "?sv = JObj kind' ps'"
      by (cases ?sv) simp_all
    have tree: "json_tree ?sv"
      using Cons.prems(1) sv unfolding src by (rule json_tree_member)
    have "lookup (baseMerge (merge_base (get_own es k) kind') ?sv) path = lookup ?sv path"
      using tree merge_base_object False
    proof (rule Cons.IH)
      show "is_leaf (lookup ?sv path)" using Cons.prems(4) src by simp
    qed
    moreover have "merge_value (get_own es k) ?sv = baseMerge (merge_base (get_own es k) kind') ?sv"
      by (simp add: merge_value_def obj)
    ultimately show ?thesis using merged src by simp
  qed
qed

text \<open>Where the source has nothing, the destination keeps what it has.\<close>

lemma merge_keeps_unset:
  "json_tree src \<Longrightarrow> is_object object \<Longrightarrow> unset_at src object path \<Longrightarrow>
   lookup (baseMerge object src) path = lookup object path"
proof (induction path arbitrary: object src)
  case Nil
  then show ?case by simp
next
  case (Cons k path)
  from Cons.prems(2) obtain okind es where object: "object = JObj okind es"
    by (cases object) simp_all
  show ?case
  proof (cases src)
    case (JObj kind ps)
    have merged: "get_prop (baseMerge object src) k =
        (case map_of ps k of None \<Rightarrow> get_own es k | Some sv \<Rightarrow> merge_value (get_own es k) sv)"
      using json_tree_distinct [of kind ps] Cons.prems(1)
      by (simp add: JObj object get_prop_merge_props)
    show ?thesis
    proof (cases "map_of ps k")
      case None
      with merged object show ?thesis by simp
    next
      case (Some sv)
      then have sv: "get_own ps k = sv" by (simp add: get_own_def)
      show ?thesis
      proof (cases sv)
        case JUndefined
        with Some merged object show ?thesis by (simp add: merge_value_def)
      next
        case (JObj kind' ps')
        from Cons.prems(3) \<open>src = JObj kind ps\<close> sv JObj object
        have ne: "path \<noteq> []" and base: "merge_base (get_own es k) kind' = get_own es k"
          and unset: "unset_at sv (get_own es k) path"
          by simp_all
        have tree: "json_tree sv"
          using Cons.prems(1) Some unfolding \<open>src = JObj kind ps\<close> by (rule json_tree_member)
        have "is_object (get_own es k)"
          using merge_base_object [of "get_own es k" kind'] base by simp
        with tree have "lookup (baseMerge (get_own es k) sv) path = lookup (get_own es k) path"
          using unset by (rule Cons.IH)
        moreover have "merge_value (get_own es k) sv = baseMerge (get_own es k) sv"
          by (simp add: merge_value_def JObj base)
        ultimately show ?thesis using Some merged object by simp
      next
        case JNull
        with Cons.prems(3) \<open>src = JObj kind ps\<close> sv show ?thesis by simp
      next
        case (JBool b)
        with Cons.prems(3) \<open>src = JObj kind ps\<close> sv show ?thesis by simp
      next
        case (JNum n)
        with Cons.prems(3) \<open>src = JObj kind ps\<close> sv show ?thesis by simp
      next
        case (JStr t)
        with Cons.prems(3) \<open>src = JObj kind ps\<close> sv show ?thesis by simp
      qed
    qed
  qed simp_all
qed

text \<open>Merging a value into a fresh object of its kind copies it.\<close>

lemma merge_copy_aux:
  "json_tree src \<longrightarrow>
     (\<forall>kind ps. src = JObj kind ps \<longrightarrow> object = JObj kind [] \<longrightarrow> baseMerge object src = src)"
  "\<forall>kind acc. object' = JObj kind acc \<longrightarrow> wf_obj (acc @ props) \<longrightarrow> json_trees props \<longrightarrow>
     merge_props object' props = JObj kind (acc @ props)"
proof (induction object src and object' props rule: baseMerge_merge_props.induct)
  case (1 object kind props)
  then show ?case by simp
next
  case (8 object key srcValue rest)
  show ?case
  proof (intro allI impI)
    fix kind acc
    assume object: "object = JObj kind acc"
      and wf: "wf_obj (acc @ (key, srcValue) # rest)"
      and trees: "json_trees ((key, srcValue) # rest)"
    from wf have wf1: "wf_obj (acc @ [(key, srcValue)])"
      using wf_obj_prefix [of "acc @ [(key, srcValue)]" rest] by simp
    then have fresh: "key \<notin> fst ` set acc"
      by (simp add: wf_obj_def own_key_order_snoc)
    then have absent: "get_own acc key = JUndefined" by (rule get_own_absent)
    let ?x = "case srcValue of
               JObj kind' ps' \<Rightarrow> baseMerge (merge_base (get_prop object key) kind') srcValue
             | _ \<Rightarrow> srcValue"
    have x: "?x = srcValue"
    proof (cases srcValue)
      case (JObj kind' ps')
      have "merge_base (get_prop object key) kind' = JObj kind' []"
        using absent object by (cases kind') simp_all
      with "8.IH"(1) [OF JObj] trees JObj show ?thesis by simp
    qed simp_all
    have "assignMergeValue object key srcValue = JObj kind (put key srcValue acc)"
      using fresh object by (simp add: assignMergeValue_def)
    also have "put key srcValue acc = acc @ [(key, srcValue)]"
      using wf1 by (rule put_snoc)
    finally have assigned: "assignMergeValue object key ?x = JObj kind (acc @ [(key, srcValue)])"
      using x by simp
    from "8.IH"(2) assigned wf trees
    have "merge_props (assignMergeValue object key ?x) rest = JObj kind ((acc @ [(key, srcValue)]) @ rest)"
      by simp
    then show "merge_props object ((key, srcValue) # rest) = JObj kind (acc @ (key, srcValue) # rest)"
      by simp
  qed
qed simp_all

lemma merge_copy: "json_tree (JObj kind ps) \<Longrightarrow> baseMerge (JObj kind []) (JObj kind ps) = JObj kind ps"
  using merge_copy_aux(1) [of "JObj kind ps" "JObj kind []"] by simp

lemma merge_value_fresh: "json_tree v \<Longrightarrow> merge_value JUndefined v = v"
proof (cases v)
  case (JObj kind ps)
  assume "json_tree v"
  then have "baseMerge (JObj kind []) v = v" unfolding JObj by (rule merge_copy)
  moreover have "merge_base JUndefined kind = JObj kind []" by (cases kind) simp_all
  ultimately show ?thesis unfolding JObj merge_value_def by simp
qed (simp_all add: merge_value_def)

subsection \<open>Merging the draft with the template\<close>

lemma set_put_subset: "set (put k v es) \<subseteq> insert (k, v) (set es)"
proof (cases "k \<in> fst ` set es")
  case True
  have "set (map (\<lambda>(k', v'). (k', if k' = k then v else v')) es) \<subseteq> insert (k, v) (set es)"
    by (induction es) auto
  with True show ?thesis by (simp add: put_old)
next
  case False
  then show ?thesis by (simp add: put_new set_ins_index)
qed

lemma set_spread_into_subset: "set (spread_into t es) \<subseteq> set t \<union> set es"
proof (induction es rule: rev_induct)
  case Nil
  show ?case by (simp add: spread_into_Nil)
next
  case (snoc e es)
  obtain k v where e: "e = (k, v)" by (cases e)
  have "set (spread_into t (es @ [e])) \<subseteq> insert (k, v) (set (spread_into t es))"
    unfolding e spread_into_snoc by (rule set_put_subset)
  with snoc e show ?case by auto
qed

lemma get_own_snoc_new: "k \<notin> fst ` set es \<Longrightarrow> get_own (es @ [(k, v)]) k' = (if k' = k then v else get_own es k')"
  by (simp add: get_own_def map_of_snoc_new del: map_of_append)

lemma get_own_spread_into:
  "distinct (map fst es) \<Longrightarrow>
   get_own (spread_into t es) k = (if k \<in> fst ` set es then get_own es k else get_own t k)"
proof (induction es rule: rev_induct)
  case Nil
  show ?case by (simp add: spread_into_Nil)
next
  case (snoc e es)
  obtain k' v' where e: "e = (k', v')" by (cases e)
  from snoc.prems e have d: "distinct (map fst es)" and fresh: "k' \<notin> fst ` set es" by auto
  have "get_own (spread_into t (es @ [e])) k = (if k = k' then v' else get_own (spread_into t es) k)"
    unfolding e spread_into_snoc by (rule get_own_put)
  moreover have "get_own (es @ [e]) k = (if k = k' then v' else get_own es k)"
    unfolding e using fresh by (rule get_own_snoc_new)
  ultimately show ?case using snoc.IH [OF d] e by auto
qed

lemma get_own_present: "get_own es k \<noteq> JUndefined \<Longrightarrow> k \<in> fst ` set es"
  using get_own_absent [of k es] by blast

lemma formatValue_wf: "wf_obj (formatValue toObject finalValue)"
proof -
  have "wf_obj [(''index'', JStr [])]" by (simp add: wf_obj_def)
  then have "wf_obj (spread_into [(''index'', JStr [])] finalValue)" by (rule spread_into_wf)
  then show ?thesis unfolding formatValue_def by (rule put_wf)
qed

lemma formatValue_keys:
  "fst ` set (formatValue toObject finalValue) = {''mappings'', ''index''} \<union> fst ` set finalValue"
  by (simp add: formatValue_def put_keys spread_into_keys)

lemma formatValue_mappings:
  "get_own (formatValue toObject finalValue) ''mappings'' =
     JObj PlainObject
       [(''properties'',
         toObject (or_else (get_prop (get_own finalValue ''mappings'') ''properties'') (JObj ArrayObject [])))]"
  by (simp add: formatValue_def get_own_put)

lemma formatValue_other:
  assumes "distinct (map fst finalValue)" and "k \<noteq> ''mappings''"
    and "k \<noteq> ''index'' \<or> k \<in> fst ` set finalValue"
  shows "get_own (formatValue toObject finalValue) k = get_own finalValue k"
proof -
  have "get_own (formatValue toObject finalValue) k = get_own (spread_into [(''index'', JStr [])] finalValue) k"
    using assms(2) by (simp add: formatValue_def get_own_put)
  also have "\<dots> = (if k \<in> fst ` set finalValue then get_own finalValue k else get_own [(''index'', JStr [])] k)"
    using assms(1) by (rule get_own_spread_into)
  also have "\<dots> = get_own finalValue k"
  proof (cases "k \<in> fst ` set finalValue")
    case True
    then show ?thesis by simp
  next
    case False
    with assms(3) have "k \<noteq> ''index''" by blast
    then have "get_own [(''index'', JStr [])] k = JUndefined" by (simp add: get_own_def)
    with False show ?thesis by (simp add: get_own_absent)
  qed
  finally show ?thesis .
qed

lemma formatValue_tree:
  assumes "json_tree (JObj PlainObject finalValue)"
    and "json_tree (toObject (or_else (get_prop (get_own finalValue ''mappings'') ''properties'') (JObj ArrayObject [])))"
  shows "json_tree (JObj PlainObject (formatValue toObject finalValue))"
proof -
  let ?P = "toObject (or_else (get_prop (get_own finalValue ''mappings'') ''properties'') (JObj ArrayObject []))"
  let ?M = "JObj PlainObject [(''properties'', ?P)]"
  let ?F = "formatValue toObject finalValue"
  from assms(1) have d: "distinct (map fst finalValue)" by (rule json_tree_distinct)
  have idx: "\<not> is_array_index ''properties''" by (simp add: is_array_index_def is_digit_def)
  have m: "json_tree ?M"
    using assms(2) by (simp add: wf_obj_def idx array_like_def get_own_def)
  have "set ?F \<subseteq> insert (''mappings'', ?M) (set (spread_into [(''index'', JStr [])] finalValue))"
    unfolding formatValue_def by (rule set_put_subset)
  also have "\<dots> \<subseteq> insert (''mappings'', ?M) (set [(''index'', JStr [])] \<union> set finalValue)"
    using set_spread_into_subset [of "[(''index'', JStr [])]" finalValue] by blast
  finally have sub: "set ?F \<subseteq> insert (''mappings'', ?M) (insert (''index'', JStr []) (set finalValue))"
    by simp
  have trees: "json_trees ?F"
    unfolding json_trees_iff
  proof
    fix e assume "e \<in> set ?F"
    with sub consider "e = (''mappings'', ?M)" | "e = (''index'', JStr [])" | "e \<in> set finalValue"
      by blast
    then show "json_tree (snd e)"
    proof cases
      case 1
      with m show ?thesis by (simp del: json_tree.simps)
    next
      case 2
      then show ?thesis by simp
    next
      case 3
      moreover have "json_trees finalValue" using assms(1) by simp
      ultimately show ?thesis by (simp add: json_trees_iff)
    qed
  qed
  have proto: "''__proto__'' \<notin> set (map fst ?F)"
    using assms(1) formatValue_keys [of toObject finalValue] by simp
  have "get_own ?F ''length'' = get_own finalValue ''length''"
    using d by (intro formatValue_other) simp_all
  with assms(1) have like: "\<not> array_like ?F" by (simp add: array_like_def)
  from formatValue_wf trees proto like show ?thesis by simp
qed

lemma baseMerge_entries:
  "\<exists>es'. baseMerge (JObj kind es) (JObj kind' ps) = JObj kind es' \<and>
         (wf_obj es \<longrightarrow> wf_obj es') \<and>
         (distinct (map fst ps) \<longrightarrow>
            (\<forall>k. get_own es' k =
               (case map_of ps k of None \<Rightarrow> get_own es k | Some sv \<Rightarrow> merge_value (get_own es k) sv)))"
proof -
  from merge_props_object [of kind es ps]
  obtain es' where es': "merge_props (JObj kind es) ps = JObj kind es'" "wf_obj es \<longrightarrow> wf_obj es'"
    by blast
  have "get_own es' k =
      (case map_of ps k of None \<Rightarrow> get_own es k | Some sv \<Rightarrow> merge_value (get_own es k) sv)"
    if "distinct (map fst ps)" for k
    using get_prop_merge_props [OF that, of kind es k] es'(1) by simp
  with es' show ?thesis by auto
qed

lemma or_else_object: "is_object v \<Longrightarrow> or_else v w = v"
  by (cases v) (simp_all add: or_else_def)

lemma get_prop_merge_base:
  "get_prop (merge_base objValue PlainObject) k = get_prop objValue k"
  by (cases objValue) (simp_all add: get_own_def)

lemma merge_value_object:
  "merge_value objValue (JObj kind ps) = baseMerge (merge_base objValue kind) (JObj kind ps)"
  by (simp add: merge_value_def)

lemma lookup_Cons_object: "lookup (JObj kind es) (k # path) = lookup (get_own es k) path"
  by simp

lemma assignMergeValue_empty: "assignMergeValue (JObj kind []) k v = JObj kind [(k, v)]"
  by (simp add: assignMergeValue_def put_def)

lemma assignMergeValue_defined: "v \<noteq> JUndefined \<Longrightarrow> assignMergeValue object k v = assign object k v"
  by (simp add: assignMergeValue_def)

lemma merge_value_case:
  "get_prop object k = JUndefined \<Longrightarrow>
   (case srcValue of
      JObj kind ps \<Rightarrow> baseMerge (merge_base (get_prop object k) kind) srcValue
    | _ \<Rightarrow> srcValue) =
   merge_value JUndefined srcValue"
  by (cases srcValue) (simp_all add: merge_value_def)

text \<open>
  What the choice \<open>Merge your changes with template\<close> delivers, in terms of the
  \<open>finalValue\<close> the call holds when the user chooses. The dialog is open because the
  simulation answered while \<open>hasEdit\<close> was set. The form value \<open>v\<close> delivered is the deep
  merge of \<open>finalValue\<close> over the response:
  \<^item> the \<open>index\<close> of \<open>v\<close> is the index name of \<open>finalValue\<close>;
  \<^item> every leaf of \<open>finalValue\<close>, at any path outside \<open>mappings\<close>, is the value of \<open>v\<close>
    at that path;
  \<^item> at every path outside \<open>mappings\<close> where \<open>finalValue\<close> has no value, \<open>v\<close> has what the
    response has there;
  \<^item> the \<open>mappings\<close> of \<open>v\<close> are \<open>{properties: transformObjectToArray(m)}\<close>, where \<open>m\<close> is
    the merge of the properties of \<open>finalValue\<close> in object form,
    \<open>transformArrayToObject(\<dots>)\<close>, over the properties of the response, with the same
    precedence and inheritance.
  \<open>hasEdit\<close> is cleared and the template indicator is set. The values are JSON documents
  (\<open>json_tree\<close>), \<open>finalValue\<close> has a non-empty index name (the handler has checked it),
  and \<open>transformArrayToObject\<close> gives an object.
\<close>

lemma confirm_cancel_merges_held_value:
  assumes held: "json_tree (JObj PlainObject finalValue)"
    and template: "json_tree (JObj PlainObject response)"
    and name: "get_own finalValue ''index'' = JStr name" "name \<noteq> []"
    and props: "toObject (or_else (get_prop (get_own finalValue ''mappings'') ''properties'') (JObj ArrayObject [])) =
        JObj kind ps" "json_tree (JObj kind ps)"
  shows "(hasEdit s \<and> \<not> destroyRef s \<longrightarrow>
           simulation_returned toArray (Resolved (Some (Ok response))) s =
             (s\<lparr>templateSimulateLoading := False\<rparr>, Confirming response)) \<and>
         (\<exists>v m.
           confirm_cancel toObject toArray finalValue response s =
             (s\<lparr>formValue := Some v, hasEdit := False, isMatchingTemplate := True\<rparr>, Finished) \<and>
           get_own v ''index'' = JStr name \<and>
           (\<forall>path. path \<noteq> [] \<and> hd path \<noteq> ''mappings'' \<and> is_leaf (lookup (JObj PlainObject finalValue) path) \<longrightarrow>
              lookup (JObj PlainObject v) path = lookup (JObj PlainObject finalValue) path) \<and>
           (\<forall>path. path \<noteq> [] \<and> hd path \<noteq> ''mappings'' \<and>
                unset_at (JObj PlainObject finalValue) (JObj PlainObject response) path \<longrightarrow>
              lookup (JObj PlainObject v) path = lookup (JObj PlainObject response) path) \<and>
           get_own v ''mappings'' = JObj PlainObject [(''properties'', toArray m)] \<and>
           (\<forall>path. path \<noteq> [] \<and> is_leaf (lookup (JObj kind ps) path) \<longrightarrow>
              lookup m path = lookup (JObj kind ps) path) \<and>
           (\<forall>path. merge_base (lookup (JObj PlainObject response) [''mappings'', ''properties'']) kind =
                  lookup (JObj PlainObject response) [''mappings'', ''properties''] \<and>
                unset_at (JObj kind ps) (lookup (JObj PlainObject response) [''mappings'', ''properties'']) path \<longrightarrow>
              lookup m path = lookup (lookup (JObj PlainObject response) [''mappings'', ''properties'']) path))"
proof -
  let ?P = "JObj kind ps"
  let ?F = "formatValue toObject finalValue"
  let ?FM = "JObj PlainObject [(''properties'', ?P)]"
  let ?d0 = "[(''index'', or_else (get_own finalValue ''index'') (JStr []))]"
  let ?rm = "get_own response ''mappings''"
  let ?rp = "get_prop ?rm ''properties''"
  let ?m = "baseMerge (merge_base ?rp kind) ?P"
  have dialog: "simulation_returned toArray (Resolved (Some (Ok response))) s =
             (s\<lparr>templateSimulateLoading := False\<rparr>, Confirming response)"
    if "hasEdit s \<and> \<not> destroyRef s"
    using that by (simp add: simulation_returned_def)
  have dd: "distinct (map fst finalValue)" using held by (rule json_tree_distinct)
  have dr: "distinct (map fst response)" using template by (rule json_tree_distinct)
  have Ftree: "json_tree (JObj PlainObject ?F)"
    using held props by (intro formatValue_tree) simp_all
  have dF: "distinct (map fst ?F)" using Ftree by (rule json_tree_distinct)
  have d0: "?d0 = [(''index'', JStr name)]"
    using name by (simp add: or_else_def)
  \<comment> \<open>the response merged into \<open>{index}\<close>\<close>
  from baseMerge_entries [of PlainObject ?d0 PlainObject response]
  obtain e1 where e1: "baseMerge (JObj PlainObject ?d0) (JObj PlainObject response) = JObj PlainObject e1"
    and e1_get: "\<And>k. get_own e1 k =
          (case map_of response k of None \<Rightarrow> get_own ?d0 k | Some sv \<Rightarrow> merge_value (get_own ?d0 k) sv)"
    using dr by blast
  have e1_other: "get_own e1 k = get_own response k" if "k \<noteq> ''index''" for k
  proof -
    from that have u: "get_own ?d0 k = JUndefined" by (simp add: get_own_def)
    show ?thesis
    proof (cases "map_of response k")
      case None
      then have "get_own response k = JUndefined" by (simp add: get_own_def)
      moreover have "get_own e1 k = JUndefined" by (simp only: e1_get None u option.case)
      ultimately show ?thesis by simp
    next
      case (Some rv)
      with template have "json_tree rv" by (rule json_tree_member)
      then have "merge_value JUndefined rv = rv" by (rule merge_value_fresh)
      moreover from Some have "get_own response k = rv" by (simp add: get_own_def)
      moreover have "get_own e1 k = merge_value JUndefined rv" by (simp only: e1_get Some u option.case)
      ultimately show ?thesis by simp
    qed
  qed
  \<comment> \<open>\<open>finalValue\<close> merged into that\<close>
  from baseMerge_entries [of PlainObject e1 PlainObject ?F]
  obtain e2 where e2: "baseMerge (JObj PlainObject e1) (JObj PlainObject ?F) = JObj PlainObject e2"
    and e2_get: "\<And>k. get_own e2 k =
          (case map_of ?F k of None \<Rightarrow> get_own e1 k | Some sv \<Rightarrow> merge_value (get_own e1 k) sv)"
    and e2_wf: "wf_obj e1 \<longrightarrow> wf_obj e2"
    using dF by blast
  have "wf_obj ?d0" by (simp add: wf_obj_def)
  with baseMerge_entries [of PlainObject ?d0 PlainObject response] e1 have "wf_obj e1" by auto
  with e2_wf have wf2: "wf_obj e2" by simp
  have merged: "mergedValue toObject finalValue response = JObj PlainObject e2"
    by (simp only: mergedValue_def merge2_def e1 e2)
  have wins: "lookup (JObj PlainObject e2) path = lookup (JObj PlainObject ?F) path"
    if "path \<noteq> []" "is_leaf (lookup (JObj PlainObject ?F) path)" for path
    using merge_source_wins [OF Ftree _ that, of "JObj PlainObject e1"] e2 by simp
  have keeps: "lookup (JObj PlainObject e2) path = lookup (JObj PlainObject e1) path"
    if "unset_at (JObj PlainObject ?F) (JObj PlainObject e1) path" for path
    using merge_keeps_unset [OF Ftree _ that] e2 by simp
  \<comment> \<open>the properties of the mappings\<close>
  have FM: "get_own ?F ''mappings'' = ?FM"
    by (simp only: formatValue_mappings props(1))
  then have "map_of ?F ''mappings'' = Some ?FM"
    using get_own_Some [of ?F "''mappings''"] by simp
  then have "get_own e2 ''mappings'' = merge_value (get_own e1 ''mappings'') ?FM"
    by (simp add: e2_get)
  also have "get_own e1 ''mappings'' = ?rm" by (rule e1_other) simp
  also have "merge_value ?rm ?FM = baseMerge (merge_base ?rm PlainObject) ?FM"
    by (rule merge_value_object)
  finally have m2: "get_own e2 ''mappings'' = baseMerge (merge_base ?rm PlainObject) ?FM" .
  obtain kb eb where base: "merge_base ?rm PlainObject = JObj kb eb"
    using merge_base_object [of ?rm PlainObject] by (cases "merge_base ?rm PlainObject") simp_all
  have "get_own eb ''properties'' = ?rp"
    using get_prop_merge_base [of ?rm "''properties''"] base by simp
  then have mp: "get_prop (get_own e2 ''mappings'') ''properties'' = ?m"
    unfolding m2 base
    using get_prop_merge_props [of "[(''properties'', ?P)]" kb eb "''properties''"]
    by (simp add: merge_value_def)
  have m_obj: "is_object ?m" by (rule baseMerge_object) (rule merge_base_object)
  \<comment> \<open>the form value delivered\<close>
  let ?v = "put ''mappings'' (JObj PlainObject [(''properties'', toArray ?m)]) e2"
  have result: "confirm_cancel toObject toArray finalValue response s =
             (s\<lparr>formValue := Some ?v, hasEdit := False, isMatchingTemplate := True\<rparr>, Finished)"
    using wf2 mp m_obj
    by (simp add: confirm_cancel_def deliver_def merged as_record_def spread_into_copy or_else_object)
  have v_get: "get_own ?v k = get_own e2 k" if "k \<noteq> ''mappings''" for k
    using that by (simp add: get_own_put)
  have v_look: "lookup (JObj PlainObject ?v) path = lookup (JObj PlainObject e2) path"
    if "path \<noteq> []" "hd path \<noteq> ''mappings''" for path
    using that by (cases path) (simp_all add: get_own_put)
  have present: "''index'' \<in> fst ` set finalValue"
    using name(1) by (intro get_own_present) simp
  have F_get: "get_own ?F k = get_own finalValue k"
    if "k \<noteq> ''mappings''" "k \<noteq> ''index'' \<or> k \<in> fst ` set finalValue" for k
    using dd that by (rule formatValue_other)
  have index: "get_own ?v ''index'' = JStr name"
  proof -
    have "get_own ?F ''index'' = JStr name"
      using F_get [of "''index''"] present name(1) by simp
    then have "lookup (JObj PlainObject ?F) [''index''] = JStr name" by simp
    with wins [of "[''index'']"] have "lookup (JObj PlainObject e2) [''index''] = JStr name" by simp
    then show ?thesis by (simp add: get_own_put)
  qed
  have precedence: "lookup (JObj PlainObject ?v) path = lookup (JObj PlainObject finalValue) path"
    if "path \<noteq> [] \<and> hd path \<noteq> ''mappings'' \<and> is_leaf (lookup (JObj PlainObject finalValue) path)" for path
  proof -
    from that obtain k rest where path: "path = k # rest" and k: "k \<noteq> ''mappings''"
      by (cases path) auto
    from that path have leaf: "is_leaf (lookup (get_own finalValue k) rest)" by simp
    then have "get_own finalValue k \<noteq> JUndefined" by (auto simp: lookup_undefined)
    then have "k \<in> fst ` set finalValue" by (rule get_own_present)
    with k have "get_own ?F k = get_own finalValue k" by (intro F_get) simp_all
    then have same: "lookup (JObj PlainObject ?F) path = lookup (JObj PlainObject finalValue) path"
      by (simp add: path)
    with that have "lookup (JObj PlainObject e2) path = lookup (JObj PlainObject ?F) path"
      by (intro wins) simp_all
    with same v_look [of path] that show ?thesis by simp
  qed
  have inherited: "lookup (JObj PlainObject ?v) path = lookup (JObj PlainObject response) path"
    if "path \<noteq> [] \<and> hd path \<noteq> ''mappings'' \<and>
        unset_at (JObj PlainObject finalValue) (JObj PlainObject response) path" for path
  proof -
    from that obtain k rest where path: "path = k # rest" and k1: "k \<noteq> ''mappings''"
      by (cases path) auto
    have k2: "k \<noteq> ''index''"
    proof
      assume "k = ''index''"
      with that path name(1) show False by simp
    qed
    note k = k1 k2
    from k have f: "get_own ?F k = get_own finalValue k" by (intro F_get) simp_all
    from k have r: "get_own e1 k = get_own response k" by (intro e1_other)
    from that path have "unset_at (JObj PlainObject finalValue) (JObj PlainObject response) (k # rest)"
      by simp
    then have "unset_at (JObj PlainObject ?F) (JObj PlainObject e1) (k # rest)"
      by (simp only: unset_at.simps get_prop.simps f r)
    then have "lookup (JObj PlainObject e2) path = lookup (JObj PlainObject e1) path"
      unfolding path by (rule keeps)
    also have "\<dots> = lookup (JObj PlainObject response) path"
      by (simp add: path r)
    finally show ?thesis using v_look [of path] that by simp
  qed
  have mappings: "get_own ?v ''mappings'' = JObj PlainObject [(''properties'', toArray ?m)]"
    by (simp add: get_own_put)
  have m_wins: "lookup ?m path = lookup ?P path"
    if "path \<noteq> [] \<and> is_leaf (lookup ?P path)" for path
    using that by (intro merge_source_wins props(2) merge_base_object) simp_all
  have rp: "lookup (JObj PlainObject response) [''mappings'', ''properties''] = ?rp" by simp
  have m_keeps: "lookup ?m path = lookup ?rp path"
    if "merge_base ?rp kind = ?rp \<and> unset_at ?P ?rp path" for path
  proof -
    from that have "is_object ?rp" using merge_base_object [of ?rp kind] by simp
    with props(2) have "lookup (baseMerge ?rp ?P) path = lookup ?rp path"
      using that by (intro merge_keeps_unset) simp_all
    with that show ?thesis by simp
  qed
  from dialog result index precedence inherited mappings m_wins m_keeps show ?thesis
    unfolding rp by blast
qed

section \<open>The claims\<close>

text \<open>
  Claim C4. For every alias value (a map from alias name to the empty object), converting
  it to the array of labels and back gives the same object: the same keys, each bound to
  the empty object. For every array of labels, converting it to the map and back gives
  the distinct labels of the array.
\<close>

theorem alias_round_trip:
  assumes "wf_obj obj" and "\<forall>e \<in> set obj. snd e = JObj PlainObject []"
  shows "transformArrayToObj (transformObjToArray (Some obj)) = obj \<and>
         distinct (map label (transformObjToArray (Some (transformArrayToObj array)))) \<and>
         set (map label (transformObjToArray (Some (transformArrayToObj array)))) = set (map label array)"
proof (intro conjI)
  have "map (\<lambda>c. (label c, JObj PlainObject [])) (transformObjToArray (Some obj)) =
        map (\<lambda>e. (fst e, JObj PlainObject [])) obj"
    by (simp add: transformObjToArray_def comp_def)
  also have "\<dots> = obj"
    using assms(2) by (induction obj) auto
  finally show "transformArrayToObj (transformObjToArray (Some obj)) = obj"
    using assms(1) by (simp add: transformArrayToObj_spread spread_into_identity)
next
  show "distinct (map label (transformObjToArray (Some (transformArrayToObj array))))"
    unfolding labels_of_transformObjToArray
    using transformArrayToObj_wf by (rule wf_obj_distinct)
next
  show "set (map label (transformObjToArray (Some (transformArrayToObj array)))) = set (map label array)"
    unfolding labels_of_transformObjToArray
    by (simp add: transformArrayToObj_keys)
qed

theorem alias_round_trip_witness:
  "transformArrayToObj (transformObjToArray (Some [(''logs'', JObj PlainObject []), (''2'', JObj PlainObject [])]))
     = [(''2'', JObj PlainObject []), (''logs'', JObj PlainObject [])] \<and>
   transformArrayToObj (transformObjToArray (Some [(''2'', JObj PlainObject []), (''logs'', JObj PlainObject [])]))
     = [(''2'', JObj PlainObject []), (''logs'', JObj PlainObject [])] \<and>
   map label (transformObjToArray (Some (transformArrayToObj
     [\<lparr>label = ''b''\<rparr>, \<lparr>label = ''a''\<rparr>, \<lparr>label = ''b''\<rparr>]))) = [''b'', ''a'']"
proof -
  let ?obj = "[(''2'', JObj PlainObject []), (''logs'', JObj PlainObject [])]"
  let ?array = "[\<lparr>label = ''b''\<rparr>, \<lparr>label = ''a''\<rparr>, \<lparr>label = ''b''\<rparr>]"
  have idx: "is_array_index ''2''" "\<not> is_array_index ''logs''" "\<not> is_array_index ''a''" "\<not> is_array_index ''b''"
    by (simp_all add: is_array_index_def is_digit_def decimal_def digit_val_def)
  have wf: "wf_obj ?obj"
    by (simp add: wf_obj_def idx)
  have vals: "\<forall>e \<in> set ?obj. snd e = JObj PlainObject []"
    by simp
  have other: "transformArrayToObj (transformObjToArray (Some [(''logs'', JObj PlainObject []), (''2'', JObj PlainObject [])])) = ?obj"
    by (simp add: transformArrayToObj_def transformObjToArray_def spread_into_def put_def idx)
  have labels: "map label (transformObjToArray (Some (transformArrayToObj ?array))) = [''b'', ''a'']"
    by (simp add: transformArrayToObj_def transformObjToArray_def spread_into_def put_def idx)
  from alias_round_trip [OF wf vals, of ?array] other labels show ?thesis
    by simp
qed

text \<open>
  Claim C9. \<open>getOrderedJson\<close> returns an object that binds exactly the keys of its argument
  to the same values, and applying it twice gives the same result as applying it once.
  The keys of the result are enumerated as the language enumerates the properties of any
  object: the keys that are array indices first, in ascending numeric order, followed by
  all other keys in ascending order. For an object without array-index keys this is the
  ascending order of all keys.
\<close>

theorem getOrderedJson_canonical:
  assumes "wf_obj json"
  shows "set (getOrderedJson json) = set json \<and>
         wf_obj (getOrderedJson json) \<and>
         sorted (filter (\<lambda>k. \<not> is_array_index k) (map fst (getOrderedJson json))) \<and>
         ((\<forall>k \<in> fst ` set json. \<not> is_array_index k) \<longrightarrow> sorted (map fst (getOrderedJson json))) \<and>
         getOrderedJson (getOrderedJson json) = getOrderedJson json"
proof -
  from assms have d: "distinct (map fst json)" by (rule wf_obj_distinct)
  have same: "set (getOrderedJson json) = set json" using d by (rule getOrderedJson_set)
  have rest: "sorted (filter (\<lambda>k. \<not> is_array_index k) (map fst (getOrderedJson json)))"
    using d by (rule getOrderedJson_rest_sorted)
  have "sorted (map fst (getOrderedJson json))" if "\<forall>k \<in> fst ` set json. \<not> is_array_index k"
  proof -
    from that same have "\<forall>k \<in> set (map fst (getOrderedJson json)). \<not> is_array_index k" by simp
    then have "filter (\<lambda>k. \<not> is_array_index k) (map fst (getOrderedJson json)) = map fst (getOrderedJson json)"
      by (simp only: filter_True)
    with rest show ?thesis by simp
  qed
  with same rest getOrderedJson_wf [of json] getOrderedJson_idem [OF d] show ?thesis
    by blast
qed

theorem getOrderedJson_canonical_witness:
  "wf_obj [(''1'', JNum 7), (''b'', JNum 2), (''a'', JNum 3)] \<and>
   getOrderedJson [(''1'', JNum 7), (''b'', JNum 2), (''a'', JNum 3)] =
     [(''1'', JNum 7), (''a'', JNum 3), (''b'', JNum 2)] \<and>
   getOrderedJson [(''b'', JNum 2), (''a'', JNum 3)] = [(''a'', JNum 3), (''b'', JNum 2)] \<and>
   sorted (map fst (getOrderedJson [(''b'', JNum 2), (''a'', JNum 3)])) \<and>
   getOrderedJson (getOrderedJson [(''1'', JNum 7), (''b'', JNum 2), (''a'', JNum 3)]) =
     getOrderedJson [(''1'', JNum 7), (''b'', JNum 2), (''a'', JNum 3)]"
proof -
  have idx: "is_array_index ''1''" "\<not> is_array_index ''a''" "\<not> is_array_index ''b''"
    by (simp_all add: is_array_index_def is_digit_def decimal_def digit_val_def)
  have wf1: "wf_obj [(''1'', JNum 7), (''b'', JNum 2), (''a'', JNum 3)]"
    by (simp add: wf_obj_def idx)
  have wf2: "wf_obj [(''b'', JNum 2), (''a'', JNum 3)]"
    by (simp add: wf_obj_def idx)
  have r1: "getOrderedJson [(''1'', JNum 7), (''b'', JNum 2), (''a'', JNum 3)] =
      [(''1'', JNum 7), (''a'', JNum 3), (''b'', JNum 2)]"
    by (simp add: getOrderedJson_def sort_by_def compare_keys_def spread_into_def put_def idx)
  have r2: "getOrderedJson [(''b'', JNum 2), (''a'', JNum 3)] = [(''a'', JNum 3), (''b'', JNum 2)]"
    by (simp add: getOrderedJson_def sort_by_def compare_keys_def spread_into_def put_def idx)
  have none: "\<forall>k \<in> fst ` set [(''b'', JNum 2), (''a'', JNum 3)]. \<not> is_array_index k"
    by (simp add: idx)
  from getOrderedJson_canonical [OF wf1] getOrderedJson_canonical [OF wf2] none wf1 r1 r2
  show ?thesis by blast
qed

theorem getOrderedJson_not_ascending:
  "wf_obj [(''0'', JNull), (''-1'', JNull)] \<and>
   map fst (getOrderedJson [(''0'', JNull), (''-1'', JNull)]) = [''0'', ''-1''] \<and>
   \<not> sorted (map fst (getOrderedJson [(''0'', JNull), (''-1'', JNull)]))"
proof -
  have idx: "is_array_index ''0''" "\<not> is_array_index ''-1''"
    by (simp_all add: is_array_index_def is_digit_def decimal_def digit_val_def)
  have r: "getOrderedJson [(''0'', JNull), (''-1'', JNull)] = [(''0'', JNull), (''-1'', JNull)]"
    by (simp add: getOrderedJson_def sort_by_def compare_keys_def spread_into_def put_def idx)
  show ?thesis
    by (simp add: r wf_obj_def idx)
qed

text \<open>
  Claim C8. When the backend call of \<open>refreshOptions\<close> succeeds, the options handed on
  carry every alias name at most once, none of them matches the system-alias patterns, and
  every returned alias that matches none of them is among the options. A response that is
  not ok is handed on as it is.
\<close>

theorem refreshOptions_distinct_non_system:
  "(refreshOptionsFromProps (case searchValue of None \<Rightarrow> '''' | Some s \<Rightarrow> s) = Ok response \<longrightarrow>
      (\<exists>options. refreshOptions filterByMinimatch SYSTEM_ALIAS refreshOptionsFromProps searchValue = Ok options \<and>
         distinct (map label options) \<and>
         set (map label options) =
           {a \<in> alias_name ` set response. \<not> filterByMinimatch a SYSTEM_ALIAS})) \<and>
   (refreshOptionsFromProps (case searchValue of None \<Rightarrow> '''' | Some s \<Rightarrow> s) = Failed e \<longrightarrow>
      refreshOptions filterByMinimatch SYSTEM_ALIAS refreshOptionsFromProps searchValue = Failed e)"
proof (intro conjI impI)
  assume ok: "refreshOptionsFromProps (case searchValue of None \<Rightarrow> '''' | Some s \<Rightarrow> s) = Ok response"
  let ?names = "new_Set (filter (\<lambda>item. \<not> filterByMinimatch item SYSTEM_ALIAS) (map alias_name response))"
  let ?options = "map (\<lambda>item. \<lparr>label = item\<rparr>) ?names"
  have labels: "map label ?options = ?names"
    by (simp add: comp_def)
  have "refreshOptions filterByMinimatch SYSTEM_ALIAS refreshOptionsFromProps searchValue = Ok ?options"
    using ok by (simp add: refreshOptions_def)
  moreover have "distinct (map label ?options)"
    unfolding labels by (rule distinct_new_Set)
  moreover have "set (map label ?options) =
      {a \<in> alias_name ` set response. \<not> filterByMinimatch a SYSTEM_ALIAS}"
    unfolding labels by (auto simp: set_new_Set)
  ultimately show "\<exists>options. refreshOptions filterByMinimatch SYSTEM_ALIAS refreshOptionsFromProps searchValue = Ok options \<and>
         distinct (map label options) \<and>
         set (map label options) =
           {a \<in> alias_name ` set response. \<not> filterByMinimatch a SYSTEM_ALIAS}"
    by blast
next
  assume "refreshOptionsFromProps (case searchValue of None \<Rightarrow> '''' | Some s \<Rightarrow> s) = Failed e"
  then show "refreshOptions filterByMinimatch SYSTEM_ALIAS refreshOptionsFromProps searchValue = Failed e"
    by (simp add: refreshOptions_def)
qed

theorem refreshOptions_distinct_non_system_witness:
  "refreshOptions (\<lambda>item patterns. item \<in> set patterns) [''.kibana'']
     (\<lambda>aliasName. Ok [\<lparr>alias_name = ''logs''\<rparr>, \<lparr>alias_name = ''.kibana''\<rparr>,
                       \<lparr>alias_name = ''logs''\<rparr>, \<lparr>alias_name = ''metrics''\<rparr>]) None
     = Ok [\<lparr>label = ''logs''\<rparr>, \<lparr>label = ''metrics''\<rparr>] \<and>
   refreshOptions (\<lambda>item patterns. item \<in> set patterns) [''.kibana'']
     (\<lambda>aliasName. Failed ''no permissions'') (Some ''lo'') = Failed ''no permissions''"
proof -
  have "refreshOptions (\<lambda>item patterns. item \<in> set patterns) [''.kibana'']
     (\<lambda>aliasName. Ok [\<lparr>alias_name = ''logs''\<rparr>, \<lparr>alias_name = ''.kibana''\<rparr>,
                       \<lparr>alias_name = ''logs''\<rparr>, \<lparr>alias_name = ''metrics''\<rparr>]) None
     = Ok [\<lparr>label = ''logs''\<rparr>, \<lparr>label = ''metrics''\<rparr>]"
    by (simp add: refreshOptions_def new_Set_def)
  moreover from refreshOptions_distinct_non_system
    [of "\<lambda>aliasName. Failed ''no permissions''" "Some ''lo''" "[]" "\<lambda>item patterns. item \<in> set patterns"
        "[''.kibana'']" "''no permissions''"]
  have "refreshOptions (\<lambda>item patterns. item \<in> set patterns) [''.kibana'']
     (\<lambda>aliasName. Failed ''no permissions'') (Some ''lo'') = Failed ''no permissions''"
    by simp
  ultimately show ?thesis by simp
qed

text \<open>
  Claim C10. When the search bar reports a parse error, \<open>onSearchChange\<close> leaves the whole
  state of the component as it is. When there is no error it sets \<open>from\<close> to 0 and stores
  the new search text and the parsed query; every other field keeps its value.
\<close>

theorem onSearchChange_frame:
  "onSearchChange (ArgsWithError queryText error) s = s \<and>
   from' (onSearchChange (ArgsWithQuery q queryText) s) = 0 \<and>
   search (onSearchChange (ArgsWithQuery q queryText) s) = queryText \<and>
   query (onSearchChange (ArgsWithQuery q queryText) s) = q \<and>
   totalIndices (onSearchChange (ArgsWithQuery q queryText) s) = totalIndices s \<and>
   size' (onSearchChange (ArgsWithQuery q queryText) s) = size' s \<and>
   sortField (onSearchChange (ArgsWithQuery q queryText) s) = sortField s \<and>
   sortDirection (onSearchChange (ArgsWithQuery q queryText) s) = sortDirection s \<and>
   selectedItems (onSearchChange (ArgsWithQuery q queryText) s) = selectedItems s \<and>
   indices (onSearchChange (ArgsWithQuery q queryText) s) = indices s \<and>
   loadingIndices (onSearchChange (ArgsWithQuery q queryText) s) = loadingIndices s \<and>
   showDataStreams (onSearchChange (ArgsWithQuery q queryText) s) = showDataStreams s \<and>
   isDataStreamColumnVisible (onSearchChange (ArgsWithQuery q queryText) s) = isDataStreamColumnVisible s \<and>
   deleteIndexModalVisible (onSearchChange (ArgsWithQuery q queryText) s) = deleteIndexModalVisible s \<and>
   indices_state.more (onSearchChange (ArgsWithQuery q queryText) s) = indices_state.more s"
  by simp

text \<open>
  Claim C6. One run of \<open>getIndices\<close>: if the service response is ok, \<open>indices\<close> and
  \<open>totalIndices\<close> are taken from the response and no notification is raised; if the
  response is not ok or the call throws, \<open>indices\<close> and \<open>totalIndices\<close> keep their values
  and one danger notification is raised instead; in every case \<open>loadingIndices\<close> is false
  at the end. This is stated for any state \<open>s\<close> the component is in when the call comes
  back; a run from \<open>t\<close> with nothing in between resumes in \<open>getIndices_start t\<close>, which
  has the \<open>indices\<close> and \<open>totalIndices\<close> of \<open>t\<close>.
\<close>

theorem getIndices_outcomes:
  "(getIndicesResponse = Resolved (Ok response) \<longrightarrow>
      indices (fst (getIndices_resume getErrorMessage getIndicesResponse s)) = response_indices response \<and>
      totalIndices (fst (getIndices_resume getErrorMessage getIndicesResponse s)) = response_totalIndices response \<and>
      snd (getIndices_resume getErrorMessage getIndicesResponse s) = []) \<and>
   (getIndicesResponse = Resolved (Failed error) \<longrightarrow>
      indices (fst (getIndices_resume getErrorMessage getIndicesResponse s)) = indices s \<and>
      totalIndices (fst (getIndices_resume getErrorMessage getIndicesResponse s)) = totalIndices s \<and>
      snd (getIndices_resume getErrorMessage getIndicesResponse s) = [Danger error]) \<and>
   (getIndicesResponse = Rejected err \<longrightarrow>
      indices (fst (getIndices_resume getErrorMessage getIndicesResponse s)) = indices s \<and>
      totalIndices (fst (getIndices_resume getErrorMessage getIndicesResponse s)) = totalIndices s \<and>
      snd (getIndices_resume getErrorMessage getIndicesResponse s) =
        [Danger (getErrorMessage err ''There was a problem loading the indices'')]) \<and>
   loadingIndices (fst (getIndices_resume getErrorMessage getIndicesResponse s)) = False \<and>
   getIndices getErrorMessage getIndicesResponse t =
     getIndices_resume getErrorMessage getIndicesResponse (getIndices_start t) \<and>
   indices (getIndices_start t) = indices t \<and>
   totalIndices (getIndices_start t) = totalIndices t"
proof -
  have loading: "loadingIndices (fst (getIndices_resume getErrorMessage getIndicesResponse s)) = False"
    by (cases getIndicesResponse)
       (simp_all add: getIndices_resume_def split: server_response.splits)
  show ?thesis
    apply (intro conjI impI)
    subgoal by (simp add: getIndices_resume_def)
    subgoal by (simp add: getIndices_resume_def)
    subgoal by (simp add: getIndices_resume_def)
    subgoal by (simp add: getIndices_resume_def)
    subgoal by (simp add: getIndices_resume_def)
    subgoal by (simp add: getIndices_resume_def)
    subgoal by (simp add: getIndices_resume_def)
    subgoal by (simp add: getIndices_resume_def)
    subgoal by (simp add: getIndices_resume_def)
    subgoal by (rule loading)
    subgoal by (simp add: getIndices_def)
    subgoal by (simp add: getIndices_start_def)
    subgoal by (simp add: getIndices_start_def)
    done
qed

theorem getIndices_outcomes_witness:
  "indices (fst (getIndices (\<lambda>(err :: unit) message. message)
      (Resolved (Ok \<lparr>response_indices = [''logs-1''], response_totalIndices = 1\<rparr>))
      \<lparr>totalIndices = 0, from' = 0, size' = 20, search = [], query = (), sortField = ''index'',
       sortDirection = Desc, selectedItems = ([] :: string list), indices = [], loadingIndices = True, showDataStreams = False,
       isDataStreamColumnVisible = False, deleteIndexModalVisible = False\<rparr>)) = [''logs-1''] \<and>
   getIndices (\<lambda>(err :: unit) message. message) (Resolved (Failed ''no permissions''))
      \<lparr>totalIndices = 3, from' = 0, size' = 20, search = [], query = (), sortField = ''index'',
       sortDirection = Desc, selectedItems = [], indices = [''a'', ''b'', ''c''], loadingIndices = False,
       showDataStreams = True, isDataStreamColumnVisible = False, deleteIndexModalVisible = False\<rparr> =
     (\<lparr>totalIndices = 3, from' = 0, size' = 20, search = [], query = (), sortField = ''index'',
       sortDirection = Desc, selectedItems = [], indices = [''a'', ''b'', ''c''], loadingIndices = False,
       showDataStreams = True, isDataStreamColumnVisible = True, deleteIndexModalVisible = False\<rparr>,
      [Danger ''no permissions'']) \<and>
   snd (getIndices (\<lambda>(err :: unit) message. message) (Rejected ())
      \<lparr>totalIndices = 3, from' = 0, size' = 20, search = [], query = (), sortField = ''index'',
       sortDirection = Desc, selectedItems = [], indices = [''a'', ''b'', ''c''], loadingIndices = False,
       showDataStreams = True, isDataStreamColumnVisible = False, deleteIndexModalVisible = False\<rparr>) =
     [Danger ''There was a problem loading the indices'']"
proof -
  let ?s0 = "\<lparr>totalIndices = 0, from' = 0, size' = 20, search = [], query = (), sortField = ''index'',
       sortDirection = Desc, selectedItems = ([] :: string list), indices = [], loadingIndices = True, showDataStreams = False,
       isDataStreamColumnVisible = False, deleteIndexModalVisible = False\<rparr>"
  let ?r = "\<lparr>response_indices = [''logs-1''], response_totalIndices = 1\<rparr>"
  from getIndices_outcomes
    [of "Resolved (Ok ?r)" ?r "\<lambda>err message. message" "getIndices_start ?s0" "[]" "()" ?s0]
  have "indices (fst (getIndices (\<lambda>(err :: unit) message. message) (Resolved (Ok ?r)) ?s0)) = [''logs-1'']"
    by (simp add: getIndices_def)
  then show ?thesis
    by (simp add: getIndices_def getIndices_start_def getIndices_resume_def)
qed

text \<open>
  Claim C7. In \<open>CreatePolicy\<close>, \<open>onSubmit\<close> issues the REST call \<open>putPolicy\<close> (through
  \<open>onCreate\<close> or \<open>onUpdate\<close>) if and only if the policy id is not empty, the JSON string
  parses and, when the page edits an existing policy, the sequence number and the primary
  term of that policy are known. When the id is empty only the \<open>Required\<close> id error is
  set and no call is made; when the JSON is invalid a danger toast is shown and no call is
  made; when an update lacks the sequence number or the primary term a danger toast is
  shown and no call is made. \<open>isSubmitting\<close> is false after every submission.
\<close>

theorem onSubmit_putPolicy:
  "(issues_putPolicy (snd (onSubmit isEdit JSON_parse getErrorMessage response s)) \<longleftrightarrow>
      policyId s \<noteq> [] \<and> JSON_parse (jsonString s) \<noteq> None \<and>
      (isEdit \<longrightarrow> policySeqNo s \<noteq> None \<and> policyPrimaryTerm s \<noteq> None)) \<and>
   (policyId s = [] \<longrightarrow>
      onSubmit isEdit JSON_parse getErrorMessage response s =
        (s\<lparr>submitError := [], hasSubmitted := True, policyIdError := ''Required'', isSubmitting := False\<rparr>, [])) \<and>
   (policyId s \<noteq> [] \<and> JSON_parse (jsonString s) = None \<longrightarrow>
      snd (onSubmit isEdit JSON_parse getErrorMessage response s) =
        [AddDanger ''Invalid Policy JSON'', ConsoleError]) \<and>
   (isEdit \<and> policyId s \<noteq> [] \<and> JSON_parse (jsonString s) \<noteq> None \<and>
    (policySeqNo s = None \<or> policyPrimaryTerm s = None) \<longrightarrow>
      snd (onSubmit isEdit JSON_parse getErrorMessage response s) =
        [AddDanger ''Could not update policy without seqNo and primaryTerm'']) \<and>
   isSubmitting (fst (onSubmit isEdit JSON_parse getErrorMessage response s)) = False"
proof -
  have create: "issues_putPolicy (snd (onCreate getErrorMessage response i p t))" for i p t
    by (simp add: onCreate_def issues_putPolicy_def split: awaited.splits server_response.splits)
  have update: "issues_putPolicy (snd (onUpdate getErrorMessage response i p t)) \<longleftrightarrow>
      policySeqNo t \<noteq> None \<and> policyPrimaryTerm t \<noteq> None" for i p t
    by (auto simp: onUpdate_def issues_putPolicy_def
        split: awaited.splits server_response.splits option.splits)
  have update_none: "snd (onUpdate getErrorMessage response i p t) =
      [AddDanger ''Could not update policy without seqNo and primaryTerm'']"
    if "policySeqNo t = None \<or> policyPrimaryTerm t = None" for i p t
    using that by (auto simp: onUpdate_def split: option.splits)
  have calls: "issues_putPolicy (snd (onSubmit isEdit JSON_parse getErrorMessage response s)) \<longleftrightarrow>
      policyId s \<noteq> [] \<and> JSON_parse (jsonString s) \<noteq> None \<and>
      (isEdit \<longrightarrow> policySeqNo s \<noteq> None \<and> policyPrimaryTerm s \<noteq> None)"
  proof (cases "policyId s = []")
    case True
    then show ?thesis by (simp add: onSubmit_def issues_putPolicy_def)
  next
    case id: False
    show ?thesis
    proof (cases "JSON_parse (jsonString s)")
      case None
      with id show ?thesis by (simp add: onSubmit_def issues_putPolicy_def)
    next
      case (Some policy)
      with id show ?thesis
        by (cases isEdit) (simp_all add: onSubmit_def split_def Let_def create update)
    qed
  qed
  have empty: "onSubmit isEdit JSON_parse getErrorMessage response s =
        (s\<lparr>submitError := [], hasSubmitted := True, policyIdError := ''Required'', isSubmitting := False\<rparr>, [])"
    if "policyId s = []"
    using that by (simp add: onSubmit_def)
  have invalid: "snd (onSubmit isEdit JSON_parse getErrorMessage response s) =
        [AddDanger ''Invalid Policy JSON'', ConsoleError]"
    if "policyId s \<noteq> [] \<and> JSON_parse (jsonString s) = None"
    using that by (simp add: onSubmit_def)
  have guarded: "snd (onSubmit isEdit JSON_parse getErrorMessage response s) =
        [AddDanger ''Could not update policy without seqNo and primaryTerm'']"
    if "isEdit \<and> policyId s \<noteq> [] \<and> JSON_parse (jsonString s) \<noteq> None \<and>
        (policySeqNo s = None \<or> policyPrimaryTerm s = None)"
    using that by (auto simp: onSubmit_def split_def Let_def update_none)
  have finished: "isSubmitting (fst (onSubmit isEdit JSON_parse getErrorMessage response s)) = False"
    by (simp add: onSubmit_def split_def Let_def)
  from calls empty invalid guarded finished show ?thesis by blast
qed

theorem onSubmit_putPolicy_witness:
  "onSubmit False (\<lambda>text. if text = ''{}'' then Some () else None) (\<lambda>(err :: unit) message. message)
     (Resolved (Ok ''policy_1''))
     \<lparr>policyId = ''policy_1'', policyIdError = [], jsonString = ''{}'', policySeqNo = None,
      policyPrimaryTerm = None, submitError = ''old'', isSubmitting = False, hasSubmitted = False\<rparr> =
     (\<lparr>policyId = ''policy_1'', policyIdError = [], jsonString = ''{}'', policySeqNo = None,
       policyPrimaryTerm = None, submitError = [], isSubmitting = False, hasSubmitted = True\<rparr>,
      [PutPolicy () ''policy_1'' None, AddSuccess ''Created policy: policy_1'', HistoryPushPolicies]) \<and>
   issues_putPolicy (snd (onSubmit False (\<lambda>text. if text = ''{}'' then Some () else None)
     (\<lambda>(err :: unit) message. message) (Resolved (Ok ''policy_1''))
     \<lparr>policyId = ''policy_1'', policyIdError = [], jsonString = ''{}'', policySeqNo = None,
      policyPrimaryTerm = None, submitError = ''old'', isSubmitting = False, hasSubmitted = False\<rparr>)) \<and>
   snd (onSubmit False (\<lambda>text. if text = ''{}'' then Some () else None)
     (\<lambda>(err :: unit) message. message) (Resolved (Ok ''policy_1''))
     \<lparr>policyId = ''policy_1'', policyIdError = [], jsonString = ''{'', policySeqNo = None,
      policyPrimaryTerm = None, submitError = [], isSubmitting = False, hasSubmitted = False\<rparr>) =
     [AddDanger ''Invalid Policy JSON'', ConsoleError] \<and>
   fst (onSubmit False (\<lambda>text. if text = ''{}'' then Some () else None)
     (\<lambda>(err :: unit) message. message) (Resolved (Ok ''policy_1''))
     \<lparr>policyId = [], policyIdError = [], jsonString = ''{}'', policySeqNo = None,
      policyPrimaryTerm = None, submitError = [], isSubmitting = False, hasSubmitted = False\<rparr>) =
     \<lparr>policyId = [], policyIdError = ''Required'', jsonString = ''{}'', policySeqNo = None,
      policyPrimaryTerm = None, submitError = [], isSubmitting = False, hasSubmitted = True\<rparr>"
proof -
  let ?parse = "\<lambda>text. if text = ''{}'' then Some () else None"
  let ?s = "\<lparr>policyId = ''policy_1'', policyIdError = [], jsonString = ''{}'', policySeqNo = None,
      policyPrimaryTerm = None, submitError = ''old'', isSubmitting = False, hasSubmitted = False\<rparr>"
  from onSubmit_putPolicy [of False ?parse "\<lambda>(err :: unit) message. message" "Resolved (Ok ''policy_1'')" ?s]
  have "issues_putPolicy (snd (onSubmit False ?parse (\<lambda>(err :: unit) message. message)
      (Resolved (Ok ''policy_1'')) ?s))"
    by simp
  then show ?thesis
    by (simp add: onSubmit_def onCreate_def)
qed

theorem onSubmit_update_without_seqNo:
  "policyId \<lparr>policyId = ''policy_1'', policyIdError = [], jsonString = ''{}'', policySeqNo = None,
      policyPrimaryTerm = None, submitError = [], isSubmitting = False, hasSubmitted = False\<rparr> \<noteq> [] \<and>
   (\<lambda>text. if text = ''{}'' then Some () else None)
     (jsonString \<lparr>policyId = ''policy_1'', policyIdError = [], jsonString = ''{}'', policySeqNo = None,
      policyPrimaryTerm = None, submitError = [], isSubmitting = False, hasSubmitted = False\<rparr>) = Some () \<and>
   onSubmit True (\<lambda>text. if text = ''{}'' then Some () else None) (\<lambda>(err :: unit) message. message)
     (Resolved (Ok ''policy_1''))
     \<lparr>policyId = ''policy_1'', policyIdError = [], jsonString = ''{}'', policySeqNo = None,
      policyPrimaryTerm = None, submitError = [], isSubmitting = False, hasSubmitted = False\<rparr> =
     (\<lparr>policyId = ''policy_1'', policyIdError = [], jsonString = ''{}'', policySeqNo = None,
       policyPrimaryTerm = None, submitError = [], isSubmitting = False, hasSubmitted = True\<rparr>,
      [AddDanger ''Could not update policy without seqNo and primaryTerm'']) \<and>
   \<not> issues_putPolicy (snd (onSubmit True (\<lambda>text. if text = ''{}'' then Some () else None)
     (\<lambda>(err :: unit) message. message) (Resolved (Ok ''policy_1''))
     \<lparr>policyId = ''policy_1'', policyIdError = [], jsonString = ''{}'', policySeqNo = None,
      policyPrimaryTerm = None, submitError = [], isSubmitting = False, hasSubmitted = False\<rparr>))"
  by (simp add: onSubmit_def onUpdate_def issues_putPolicy_def)

text \<open>
  Claim C2. When the simulation comes back successfully while the component is alive and
  the user has made no edit other than the index name since the last reconciliation
  (\<open>hasEdit\<close> is false), the handler ends without a confirmation dialog; the response
  becomes the whole form value, with \<open>mappings\<close> replaced by
  \<open>{properties: transformObjectToArray(response.mappings?.properties || {})}\<close> and every
  other property taken from the response; \<open>hasEdit\<close> is false, the template indicator is
  true and the loading flag is false afterwards.
\<close>

theorem simulation_replaces_form_value:
  assumes "\<not> destroyRef s" and "\<not> hasEdit s" and "wf_obj response"
  shows "\<exists>v. simulation_returned toArray (Resolved (Some (Ok response))) s =
           (s\<lparr>templateSimulateLoading := False, formValue := Some v, hasEdit := False,
              isMatchingTemplate := True\<rparr>, Finished) \<and>
         get_own v ''mappings'' =
           JObj PlainObject
             [(''properties'',
               toArray (or_else (get_prop (get_own response ''mappings'') ''properties'') (JObj PlainObject [])))] \<and>
         (\<forall>k. k \<noteq> ''mappings'' \<longrightarrow> get_own v k = get_own response k) \<and>
         set (map fst v) = insert ''mappings'' (set (map fst response))"
proof -
  let ?m = "JObj PlainObject
             [(''properties'',
               toArray (or_else (get_prop (get_own response ''mappings'') ''properties'') (JObj PlainObject [])))]"
  let ?v = "put ''mappings'' ?m response"
  have "simulation_returned toArray (Resolved (Some (Ok response))) s =
           (s\<lparr>templateSimulateLoading := False, formValue := Some ?v, hasEdit := False,
              isMatchingTemplate := True\<rparr>, Finished)"
    using assms by (simp add: simulation_returned_def deliver_def as_record_def spread_into_copy)
  moreover have "get_own ?v ''mappings'' = ?m"
    by (simp add: get_own_put)
  moreover have "\<forall>k. k \<noteq> ''mappings'' \<longrightarrow> get_own ?v k = get_own response k"
    by (simp add: get_own_put)
  moreover have "set (map fst ?v) = insert ''mappings'' (set (map fst response))"
    by (rule keys_put)
  ultimately show ?thesis by blast
qed

theorem simulation_replaces_form_value_witness:
  "simulation_returned (\<lambda>properties. JObj ArrayObject [(''0'', JObj PlainObject (as_record properties))])
     (Resolved (Some (Ok
        [(''index'', JStr ''logs''),
         (''settings'', JObj PlainObject [(''index.number_of_shards'', JNum 3)]),
         (''mappings'', JObj PlainObject [(''properties'', JObj PlainObject [(''message'', JStr ''text'')])])])))
     \<lparr>formValue = Some [(''index'', JStr ''logs'')], hasEdit = False, destroyRef = False,
      templateSimulateLoading = True, isMatchingTemplate = False\<rparr> =
   (\<lparr>formValue = Some
        [(''index'', JStr ''logs''),
         (''settings'', JObj PlainObject [(''index.number_of_shards'', JNum 3)]),
         (''mappings'', JObj PlainObject [(''properties'',
            JObj ArrayObject [(''0'', JObj PlainObject [(''message'', JStr ''text'')])])])],
      hasEdit = False, destroyRef = False, templateSimulateLoading = False, isMatchingTemplate = True\<rparr>,
    Finished)"
proof -
  let ?response = "[(''index'', JStr ''logs''),
         (''settings'', JObj PlainObject [(''index.number_of_shards'', JNum 3)]),
         (''mappings'', JObj PlainObject [(''properties'', JObj PlainObject [(''message'', JStr ''text'')])])]"
  let ?s = "\<lparr>formValue = Some [(''index'', JStr ''logs'')], hasEdit = False, destroyRef = False,
      templateSimulateLoading = True, isMatchingTemplate = False\<rparr>"
  let ?toArray = "\<lambda>properties. JObj ArrayObject [(''0'', JObj PlainObject (as_record properties))]"
  have idx: "\<not> is_array_index ''index''" "\<not> is_array_index ''settings''" "\<not> is_array_index ''mappings''"
    by (simp_all add: is_array_index_def is_digit_def)
  have wf: "wf_obj ?response"
    by (simp add: wf_obj_def idx)
  from simulation_replaces_form_value [of ?s ?response ?toArray, OF _ _ wf]
  obtain v where v: "simulation_returned ?toArray (Resolved (Some (Ok ?response))) ?s =
           (?s\<lparr>templateSimulateLoading := False, formValue := Some v, hasEdit := False,
              isMatchingTemplate := True\<rparr>, Finished)"
    by auto
  have "simulation_returned ?toArray (Resolved (Some (Ok ?response))) ?s =
     (?s\<lparr>templateSimulateLoading := False,
         formValue := Some
          [(''index'', JStr ''logs''),
           (''settings'', JObj PlainObject [(''index.number_of_shards'', JNum 3)]),
           (''mappings'', JObj PlainObject [(''properties'',
              JObj ArrayObject [(''0'', JObj PlainObject [(''message'', JStr ''text'')])])])],
         hasEdit := False, isMatchingTemplate := True\<rparr>, Finished)"
    by (simp add: simulation_returned_def deliver_def as_record_def spread_into_def put_def idx
        get_own_def or_else_def)
  with v show ?thesis by simp
qed

text \<open>
  Claim C3. Every blur event starts one call of the handler and a call issues at most one
  simulation request: for every sequence of events on a freshly mounted component, the
  requests in flight never exceed the requests issued, and these never exceed the blur
  events. \<open>templateSimulateLoading\<close> is set whenever a request is issued. A call that
  resumes after the component is destroyed, at the end of its delay or with the answer of
  its simulation, issues no request and leaves the state of the component as it is.
  The flag is not read before a request is issued, so the calls of two blur events that
  follow each other within the delay have their requests in flight together
  (\<open>two_requests_in_flight\<close>).
\<close>

theorem blur_calls_and_requests:
  "in_flight (run sim toObject toArray events (mounted v)) \<le>
     requests (run sim toObject toArray events (mounted v)) \<and>
   requests (run sim toObject toArray events (mounted v)) \<le> blurs events \<and>
   (requests (step sim toObject toArray (DelayOver i) p) \<noteq> requests p \<longrightarrow>
      templateSimulateLoading (component (step sim toObject toArray (DelayOver i) p))) \<and>
   (destroyRef (component p) \<longrightarrow>
      component (step sim toObject toArray (DelayOver i) p) = component p \<and>
      requests (step sim toObject toArray (DelayOver i) p) = requests p \<and>
      component (step sim toObject toArray (SimulationAnswer i result) p) = component p \<and>
      requests (step sim toObject toArray (SimulationAnswer i result) p) = requests p)"
proof -
  let ?p = "run sim toObject toArray events (mounted v)"
  have "call_counts (mounted v)"
    by (simp add: call_counts_def mounted_def in_flight_def delaying_def)
  then have "call_counts ?p" by (rule run_counts)
  moreover have "length (calls ?p) = blurs events"
    by (simp add: run_calls mounted_def)
  ultimately have counts: "in_flight ?p \<le> requests ?p" "requests ?p \<le> blurs events"
    by (simp_all add: call_counts_def)
  have flag: "templateSimulateLoading (component (step sim toObject toArray (DelayOver i) p))"
    if "requests (step sim toObject toArray (DelayOver i) p) \<noteq> requests p"
    using that
    by (auto simp: resume_def delay_elapsed_def split: if_splits blur_stage.splits)
  have gone: "component (step sim toObject toArray (DelayOver i) p) = component p \<and>
      requests (step sim toObject toArray (DelayOver i) p) = requests p \<and>
      component (step sim toObject toArray (SimulationAnswer i result) p) = component p \<and>
      requests (step sim toObject toArray (SimulationAnswer i result) p) = requests p"
    if "destroyRef (component p)"
    using that
    by (auto simp: resume_def delay_elapsed_def simulation_returned_def
        split: blur_stage.splits awaited.splits)
  from counts flag gone show ?thesis by blast
qed

theorem blur_calls_and_requests_witness:
  "run True (\<lambda>j. j) (\<lambda>j. j)
     [Blur [(''index'', JStr ''logs'')], DelayOver 0, Unmount,
      SimulationAnswer 0 (Resolved (Some (Ok [(''index'', JStr ''logs'')])))]
     (mounted (Some [(''index'', JStr ''logs'')])) =
   \<lparr>component = \<lparr>formValue = Some [(''index'', JStr ''logs'')], hasEdit = False, destroyRef = True,
                 templateSimulateLoading = True, isMatchingTemplate = False\<rparr>,
    calls = [([(''index'', JStr ''logs'')], Finished)], requests = 1\<rparr> \<and>
   in_flight (run True (\<lambda>j. j) (\<lambda>j. j)
     [Blur [(''index'', JStr ''logs'')], DelayOver 0, Unmount,
      SimulationAnswer 0 (Resolved (Some (Ok [(''index'', JStr ''logs'')])))]
     (mounted (Some [(''index'', JStr ''logs'')]))) \<le> 1"
proof -
  let ?fv = "[(''index'', JStr ''logs'')]"
  let ?events = "[Blur ?fv, DelayOver 0, Unmount, SimulationAnswer 0 (Resolved (Some (Ok ?fv)))]"
  have b: "blurs ?events = 1" by (simp add: blurs_def)
  have r: "run True (\<lambda>j. j) (\<lambda>j. j) ?events (mounted (Some ?fv)) =
   \<lparr>component = \<lparr>formValue = Some ?fv, hasEdit = False, destroyRef = True,
                 templateSimulateLoading = True, isMatchingTemplate = False\<rparr>,
    calls = [(?fv, Finished)], requests = 1\<rparr>"
    by (simp add: run_def mounted_def resume_def delay_elapsed_def simulation_returned_def get_own_def)
  note t = blur_calls_and_requests [of True "\<lambda>j. j" "\<lambda>j. j" ?events "Some ?fv"]
  from t [THEN conjunct1] t [THEN conjunct2, THEN conjunct1] b
  have "in_flight (run True (\<lambda>j. j) (\<lambda>j. j) ?events (mounted (Some ?fv))) \<le> 1"
    by linarith
  with r show ?thesis by simp
qed

theorem two_requests_in_flight:
  "templateSimulateLoading (component (run True (\<lambda>j. j) (\<lambda>j. j)
     [Blur [(''index'', JStr ''logs'')], Blur [(''index'', JStr ''logs'')]]
     (mounted (Some [(''index'', JStr ''logs'')])))) = False \<and>
   calls (run True (\<lambda>j. j) (\<lambda>j. j)
     [Blur [(''index'', JStr ''logs'')], Blur [(''index'', JStr ''logs'')], DelayOver 0, DelayOver 1]
     (mounted (Some [(''index'', JStr ''logs'')]))) =
     [([(''index'', JStr ''logs'')], Simulating (JStr ''logs'')),
      ([(''index'', JStr ''logs'')], Simulating (JStr ''logs''))] \<and>
   in_flight (run True (\<lambda>j. j) (\<lambda>j. j)
     [Blur [(''index'', JStr ''logs'')], Blur [(''index'', JStr ''logs'')], DelayOver 0, DelayOver 1]
     (mounted (Some [(''index'', JStr ''logs'')]))) = 2"
  by (simp add: run_def mounted_def resume_def delay_elapsed_def get_own_def in_flight_def)

text \<open>
  Claim C5. In the advanced-settings diff editor, the original text is the serialization
  of \<open>getOrderedJson(oldValue?.settings || {})\<close> and the current text that of
  \<open>getOrderedJson(value || {})\<close>. Each of the two serialized objects binds the keys of
  the settings it comes from to the same values and enumerates them with the array-index
  keys first, in ascending numeric order, followed by all other keys in ascending order.
  An edit made in the editor updates the settings to exactly the result of \<open>JSON.parse\<close>
  applied to the edited text: the editor's \<open>onChange\<close> hands that result to the settings
  form, which stores it as the \<open>settings\<close> of the form value, all other properties
  unchanged, and marks the form as edited; when the text does not parse the handler
  throws and nothing is stored.
\<close>

theorem diff_editor_settings:
  assumes "wf_obj (old_settings oldValue)" and "wf_obj (current_settings val)"
    and "wf_obj (case formValue s of None \<Rightarrow> [] | Some fv \<Rightarrow> fv)"
  shows "(\<exists>props. renderProps JSON_stringify JSON_parse False oldValue val
                     (\<lambda>parsed. settings_onChange None parsed s) = Some props \<and>
            disabled props = False \<and>
            original props = JSON_stringify (JObj PlainObject (original_json oldValue)) \<and>
            value' props = JSON_stringify (JObj PlainObject (value_json val)) \<and>
            (\<forall>text. JSON_parse text = None \<longrightarrow> onChange props text = Inl SyntaxError) \<and>
            (\<forall>text v. JSON_parse text = Some v \<longrightarrow>
               (\<exists>s' fv'. onChange props text = Inr s' \<and> formValue s' = Some fv' \<and>
                  get_own fv' ''settings'' = v \<and>
                  (\<forall>k. k \<noteq> ''settings'' \<longrightarrow>
                     get_own fv' k = get_own (case formValue s of None \<Rightarrow> [] | Some fv \<Rightarrow> fv) k) \<and>
                  hasEdit s'))) \<and>
         set (original_json oldValue) = set (old_settings oldValue) \<and>
         wf_obj (original_json oldValue) \<and>
         sorted (filter (\<lambda>k. \<not> is_array_index k) (map fst (original_json oldValue))) \<and>
         set (value_json val) = set (current_settings val) \<and>
         wf_obj (value_json val) \<and>
         sorted (filter (\<lambda>k. \<not> is_array_index k) (map fst (value_json val)))"
proof -
  let ?fv = "case formValue s of None \<Rightarrow> [] | Some fv \<Rightarrow> fv"
  let ?props = "\<lparr>disabled = False,
         original = JSON_stringify (JObj PlainObject (original_json oldValue)),
         value' = JSON_stringify (JObj PlainObject (value_json val)),
         onChange = (\<lambda>text. case JSON_parse text of None \<Rightarrow> Inl SyntaxError
                            | Some v \<Rightarrow> Inr (settings_onChange None v s))\<rparr>"
  have props: "renderProps JSON_stringify JSON_parse False oldValue val
                 (\<lambda>parsed. settings_onChange None parsed s) = Some ?props"
    by (simp add: renderProps_def)
  have fails: "onChange ?props edited = Inl SyntaxError" if "JSON_parse edited = None" for edited
    using that by simp
  have edit: "\<exists>s' fv'. onChange ?props edited = Inr s' \<and> formValue s' = Some fv' \<and>
                  get_own fv' ''settings'' = v \<and>
                  (\<forall>k. k \<noteq> ''settings'' \<longrightarrow> get_own fv' k = get_own ?fv k) \<and> hasEdit s'"
    if "JSON_parse edited = Some v" for edited v
  proof -
    have "wf_obj (put ''settings'' v ?fv)" using assms(3) by (rule put_wf)
    then have stored: "formValue (settings_onChange None v s) = Some (put ''settings'' v ?fv)"
      by (simp add: settings_onChange_def onValueChange_def as_record_def spread_into_copy)
    have flag: "hasEdit (settings_onChange None v s)"
      by (simp add: settings_onChange_def onValueChange_def)
    have "onChange ?props edited = Inr (settings_onChange None v s)"
      using that by simp
    moreover have "get_own (put ''settings'' v ?fv) ''settings'' = v"
      by (simp add: get_own_put)
    moreover have "\<forall>k. k \<noteq> ''settings'' \<longrightarrow> get_own (put ''settings'' v ?fv) k = get_own ?fv k"
      by (simp add: get_own_put)
    ultimately show ?thesis using stored flag by blast
  qed
  have shown: "disabled ?props = False"
    "original ?props = JSON_stringify (JObj PlainObject (original_json oldValue))"
    "value' ?props = JSON_stringify (JObj PlainObject (value_json val))"
    by simp_all
  have old: "set (original_json oldValue) = set (old_settings oldValue)"
    "wf_obj (original_json oldValue)"
    "sorted (filter (\<lambda>k. \<not> is_array_index k) (map fst (original_json oldValue)))"
    using assms(1)
    by (simp_all add: original_json_def getOrderedJson_set getOrderedJson_wf getOrderedJson_rest_sorted
        wf_obj_distinct)
  have new: "set (value_json val) = set (current_settings val)"
    "wf_obj (value_json val)"
    "sorted (filter (\<lambda>k. \<not> is_array_index k) (map fst (value_json val)))"
    using assms(2)
    by (simp_all add: value_json_def getOrderedJson_set getOrderedJson_wf getOrderedJson_rest_sorted
        wf_obj_distinct)
  from props shown fails edit have
    "\<exists>props. renderProps JSON_stringify JSON_parse False oldValue val
                     (\<lambda>parsed. settings_onChange None parsed s) = Some props \<and>
            disabled props = False \<and>
            original props = JSON_stringify (JObj PlainObject (original_json oldValue)) \<and>
            value' props = JSON_stringify (JObj PlainObject (value_json val)) \<and>
            (\<forall>text. JSON_parse text = None \<longrightarrow> onChange props text = Inl SyntaxError) \<and>
            (\<forall>text v. JSON_parse text = Some v \<longrightarrow>
               (\<exists>s' fv'. onChange props text = Inr s' \<and> formValue s' = Some fv' \<and>
                  get_own fv' ''settings'' = v \<and>
                  (\<forall>k. k \<noteq> ''settings'' \<longrightarrow> get_own fv' k = get_own ?fv k) \<and>
                  hasEdit s'))"
    by blast
  with old new show ?thesis by blast
qed

text \<open>
  An example: the original settings \<open>{"index.refresh_interval": "1s",
  "index.number_of_shards": 1}\<close> are shown with \<open>index.number_of_shards\<close> first (the
  serializer here writes the keys only); the text \<open>{}\<close> is stored as the settings in
  place of \<open>{"index.number_of_shards": 2}\<close>, the text \<open>{\<close> is refused; and the settings
  \<open>"ab"\<close>, which the editor stores for the text \<open>"ab"\<close>, are shown as
  \<open>{"0": "a", "1": "b"}\<close>.
\<close>

theorem diff_editor_settings_witness:
  "map_option original
     (renderProps (\<lambda>j. concat (map (\<lambda>e. fst e @ '';'') (as_record j)))
        (\<lambda>text. if text = ''{}'' then Some (JObj PlainObject []) else None) False
        (Some [(''index'', JStr ''logs''),
               (''settings'', JObj PlainObject [(''index.refresh_interval'', JStr ''1s''),
                                                (''index.number_of_shards'', JNum 1)])])
        (JObj PlainObject [(''index.number_of_shards'', JNum 2)])
        (\<lambda>parsed. settings_onChange None parsed
           \<lparr>formValue = Some [(''index'', JStr ''logs''),
                              (''settings'', JObj PlainObject [(''index.number_of_shards'', JNum 2)])],
            hasEdit = False, destroyRef = False, templateSimulateLoading = False,
            isMatchingTemplate = False\<rparr>)) =
     Some ''index.number_of_shards;index.refresh_interval;'' \<and>
   (\<exists>props s'.
      renderProps (\<lambda>j. concat (map (\<lambda>e. fst e @ '';'') (as_record j)))
        (\<lambda>text. if text = ''{}'' then Some (JObj PlainObject []) else None) False
        (Some [(''index'', JStr ''logs''),
               (''settings'', JObj PlainObject [(''index.refresh_interval'', JStr ''1s''),
                                                (''index.number_of_shards'', JNum 1)])])
        (JObj PlainObject [(''index.number_of_shards'', JNum 2)])
        (\<lambda>parsed. settings_onChange None parsed
           \<lparr>formValue = Some [(''index'', JStr ''logs''),
                              (''settings'', JObj PlainObject [(''index.number_of_shards'', JNum 2)])],
            hasEdit = False, destroyRef = False, templateSimulateLoading = False,
            isMatchingTemplate = False\<rparr>) = Some props \<and>
      onChange props ''{'' = Inl SyntaxError \<and>
      onChange props ''{}'' = Inr s' \<and>
      formValue s' = Some [(''index'', JStr ''logs''), (''settings'', JObj PlainObject [])] \<and>
      hasEdit s') \<and>
   value_json (JStr ''ab'') = [(''0'', JStr ''a''), (''1'', JStr ''b'')]"
proof -
  let ?stringify = "\<lambda>j. concat (map (\<lambda>e. fst e @ '';'') (as_record j))"
  let ?parse = "\<lambda>text. if text = ''{}'' then Some (JObj PlainObject []) else None"
  let ?old = "Some [(''index'', JStr ''logs''),
               (''settings'', JObj PlainObject [(''index.refresh_interval'', JStr ''1s''),
                                                (''index.number_of_shards'', JNum 1)])]"
  let ?val = "JObj PlainObject [(''index.number_of_shards'', JNum 2)]"
  let ?s = "\<lparr>formValue = Some [(''index'', JStr ''logs''),
                              (''settings'', JObj PlainObject [(''index.number_of_shards'', JNum 2)])],
      hasEdit = False, destroyRef = False, templateSimulateLoading = False, isMatchingTemplate = False\<rparr>"
  have idx: "\<not> is_array_index ''index''" "\<not> is_array_index ''settings''"
    "\<not> is_array_index ''index.refresh_interval''" "\<not> is_array_index ''index.number_of_shards''"
    by (simp_all add: is_array_index_def is_digit_def)
  have idx': "is_array_index ''0''" "is_array_index ''1''" "decimal ''0'' = 0" "decimal ''1'' = 1"
    by (simp_all add: is_array_index_def is_digit_def decimal_def digit_val_def)
  have olds: "old_settings ?old = [(''index.refresh_interval'', JStr ''1s''), (''index.number_of_shards'', JNum 1)]"
    by (simp add: old_settings_def get_own_def or_else_def Object_entries_def)
  have wf1: "wf_obj (old_settings ?old)"
    unfolding olds by (simp add: wf_obj_def idx)
  have wf2: "wf_obj (current_settings ?val)"
    by (simp add: current_settings_def or_else_def Object_entries_def wf_obj_def idx)
  have wf3: "wf_obj (case formValue ?s of None \<Rightarrow> [] | Some fv \<Rightarrow> fv)"
    by (simp add: wf_obj_def idx)
  have shown: "map_option original
     (renderProps ?stringify ?parse False ?old ?val (\<lambda>parsed. settings_onChange None parsed ?s)) =
     Some ''index.number_of_shards;index.refresh_interval;''"
    by (simp add: renderProps_def original_json_def olds getOrderedJson_def sort_by_def compare_keys_def
        spread_into_def put_def idx as_record_def)
  have stored: "formValue (settings_onChange None (JObj PlainObject []) ?s) =
     Some [(''index'', JStr ''logs''), (''settings'', JObj PlainObject [])]"
    by (simp add: settings_onChange_def onValueChange_def as_record_def spread_into_def put_def idx)
  have "Object_entries (JStr ''ab'') = [(''0'', JStr ''a''), (''1'', JStr ''b'')]"
    by (simp add: Object_entries_def upt_rec digit_char_def)
  then have chars: "value_json (JStr ''ab'') = [(''0'', JStr ''a''), (''1'', JStr ''b'')]"
    by (simp add: value_json_def current_settings_def or_else_def
        getOrderedJson_def sort_by_def compare_keys_def spread_into_def put_def idx')
  note t = diff_editor_settings [OF wf1 wf2 wf3, of ?stringify ?parse, THEN conjunct1]
  then obtain props where props:
    "renderProps ?stringify ?parse False ?old ?val (\<lambda>parsed. settings_onChange None parsed ?s) = Some props"
    and fails: "\<forall>edited. ?parse edited = None \<longrightarrow> onChange props edited = Inl SyntaxError"
    and edit: "\<forall>edited v. ?parse edited = Some v \<longrightarrow>
               (\<exists>s' fv'. onChange props edited = Inr s' \<and> formValue s' = Some fv' \<and>
                  get_own fv' ''settings'' = v \<and>
                  (\<forall>k. k \<noteq> ''settings'' \<longrightarrow>
                     get_own fv' k = get_own (case formValue ?s of None \<Rightarrow> [] | Some fv \<Rightarrow> fv) k) \<and>
                  hasEdit s')"
    by (elim exE conjE)
  from fails have "?parse ''{'' = None \<longrightarrow> onChange props ''{'' = Inl SyntaxError" by (rule spec)
  then have refused: "onChange props ''{'' = Inl SyntaxError" by simp
  from edit have "?parse ''{}'' = Some (JObj PlainObject []) \<longrightarrow>
               (\<exists>s' fv'. onChange props ''{}'' = Inr s' \<and> formValue s' = Some fv' \<and>
                  get_own fv' ''settings'' = JObj PlainObject [] \<and>
                  (\<forall>k. k \<noteq> ''settings'' \<longrightarrow>
                     get_own fv' k = get_own (case formValue ?s of None \<Rightarrow> [] | Some fv \<Rightarrow> fv) k) \<and>
                  hasEdit s')"
    by (elim allE)
  then obtain s' where s': "onChange props ''{}'' = Inr s'" "hasEdit s'"
    by auto
  from props have "props = \<lparr>disabled = False,
         original = ?stringify (JObj PlainObject (original_json ?old)),
         value' = ?stringify (JObj PlainObject (value_json ?val)),
         onChange = (\<lambda>edited. case ?parse edited of None \<Rightarrow> Inl SyntaxError
                            | Some v \<Rightarrow> Inr (settings_onChange None v ?s))\<rparr>"
    by (simp add: renderProps_def)
  then have "onChange props ''{}'' = Inr (settings_onChange None (JObj PlainObject []) ?s)"
    by simp
  with s' have "s' = settings_onChange None (JObj PlainObject []) ?s" by simp
  with stored have "formValue s' = Some [(''index'', JStr ''logs''), (''settings'', JObj PlainObject [])]" by simp
  with props refused s' have
    "\<exists>props s'.
      renderProps ?stringify ?parse False ?old ?val (\<lambda>parsed. settings_onChange None parsed ?s) = Some props \<and>
      onChange props ''{'' = Inl SyntaxError \<and>
      onChange props ''{}'' = Inr s' \<and>
      formValue s' = Some [(''index'', JStr ''logs''), (''settings'', JObj PlainObject [])] \<and>
      hasEdit s'"
    by blast
  with shown chars show ?thesis by blast
qed

theorem diff_editor_keys_not_ascending:
  "wf_obj (old_settings (Some [(''settings'', JObj PlainObject [(''0'', JNum 1), (''-1'', JNum 1)])])) \<and>
   map fst (original_json (Some [(''settings'', JObj PlainObject [(''0'', JNum 1), (''-1'', JNum 1)])])) =
     [''0'', ''-1''] \<and>
   \<not> sorted (map fst (original_json (Some [(''settings'', JObj PlainObject [(''0'', JNum 1), (''-1'', JNum 1)])]))) \<and>
   map_option original
     (renderProps (\<lambda>j. concat (map (\<lambda>e. fst e @ '';'') (as_record j)))
        (\<lambda>text. None) False
        (Some [(''settings'', JObj PlainObject [(''0'', JNum 1), (''-1'', JNum 1)])])
        JUndefined (\<lambda>v. v)) = Some ''0;-1;''"
proof -
  have idx: "is_array_index ''0''" "\<not> is_array_index ''-1''"
    by (simp_all add: is_array_index_def is_digit_def decimal_def digit_val_def)
  have olds: "old_settings (Some [(''settings'', JObj PlainObject [(''0'', JNum 1), (''-1'', JNum 1)])]) =
      [(''0'', JNum 1), (''-1'', JNum 1)]"
    by (simp add: old_settings_def get_own_def or_else_def Object_entries_def)
  have r: "original_json (Some [(''settings'', JObj PlainObject [(''0'', JNum 1), (''-1'', JNum 1)])]) =
      [(''0'', JNum 1), (''-1'', JNum 1)]"
    by (simp add: original_json_def olds getOrderedJson_def sort_by_def compare_keys_def spread_into_def
        put_def idx)
  show ?thesis
    by (simp add: olds r wf_obj_def idx renderProps_def as_record_def)
qed

text \<open>
  Claim C1. The claim says that \<open>Merge your changes with template\<close> gives the deep merge
  of the user's current draft over the simulation response. The handler merges the
  \<open>finalValue\<close> it holds, and the memoised handler holds the form value of the rendering
  in which the index name last changed, not the present one. The happenings below show
  the difference; the parent passes the same function \<open>onSimulateIndexTemplate\<close> at every
  rendering.
  \<^enum> The user types the index name \<open>logs\<close> into an empty form and leaves the input. The
    simulation answers \<open>{index: "logs", settings: {replicas: 2, shards: 3}}\<close>; nothing
    has been edited, so the response becomes the form value.
  \<^enum> The user sets \<open>settings.replicas\<close> to \<open>1\<close> and adds the alias \<open>mine\<close>. The index name
    is unchanged, so the blur handler is still the one of the rendering in which the name
    was typed, and its \<open>finalValue\<close> is \<open>{index: "logs"}\<close>.
  \<^enum> The index-name input loses the focus again, the simulation answers as before, the
    dialog opens and the user chooses \<open>Merge your changes with template\<close>.
  Before the choice the draft has \<open>replicas: 1\<close> and the alias \<open>mine\<close>; the form value
  delivered has \<open>replicas: 2\<close> and no aliases: it is the response, and both edits are
  lost.
\<close>

theorem merge_drops_edits_made_since_the_name_changed:
  "let response = [(''index'', JStr ''logs''),
        (''settings'', JObj PlainObject [(''replicas'', JNum 2), (''shards'', JNum 3)])];
       before = session_run True True toObject toArray
         [ControlReports [''index''] (JStr ''logs''),
           IndexNameBlurs, DelayEnds 0, SimulationAnswers 0 (Resolved (Some (Ok response))),
           ControlReports [''settings'', ''replicas''] (JNum 1),
           ControlReports [''aliases''] (JObj PlainObject [(''mine'', JObj PlainObject [])]),
           IndexNameBlurs, DelayEnds 1, SimulationAnswers 1 (Resolved (Some (Ok response)))]
          (first_rendering None);
       after = session_step True True toObject toArray (PressMerge 1) before
   in draft before = Some
         [(''index'', JStr ''logs''),
          (''settings'', JObj PlainObject [(''replicas'', JNum 1), (''shards'', JNum 3)]),
          (''mappings'', JObj PlainObject [(''properties'', toArray (JObj PlainObject []))]),
          (''aliases'', JObj PlainObject [(''mine'', JObj PlainObject [])])] \<and>
      hasEdit (detail before) \<and>
      map snd (handlers before) = [Finished, Confirming response] \<and>
      contents (store before) (memo before) = [(''index'', JStr ''logs'')] \<and>
      contents (store before) (fst (handlers before ! 1)) = [(''index'', JStr ''logs'')] \<and>
      draft after = Some
         [(''index'', JStr ''logs''),
          (''settings'', JObj PlainObject [(''replicas'', JNum 2), (''shards'', JNum 3)]),
          (''mappings'', JObj PlainObject [(''properties'',
             toArray (or_else (merge_value JUndefined (toObject (JObj ArrayObject []))) (JObj PlainObject [])))])] \<and>
      \<not> hasEdit (detail after)"
proof -
  let ?response = "[(''index'', JStr ''logs''),
        (''settings'', JObj PlainObject [(''replicas'', JNum 2), (''shards'', JNum 3)])]"
  let ?step = "session_step True True toObject toArray"
  let ?s0 = "\<lparr>store = \<lparr>cells = [],
        objects = [[]]\<rparr>,
      current = None,
      detail = \<lparr>formValue = None, hasEdit = False, destroyRef = False,
                 templateSimulateLoading = False, isMatchingTemplate = False\<rparr>,
      memo = 0, memo_index = (None, JUndefined),
      handlers = []\<rparr>"
  let ?s1 = "\<lparr>store = \<lparr>cells = [JStr ''logs''],
        objects = [[], [(''index'', 0)], [(''index'', 0)]]\<rparr>,
      current = Some 2,
      detail = \<lparr>formValue = None, hasEdit = False, destroyRef = False,
                 templateSimulateLoading = False, isMatchingTemplate = False\<rparr>,
      memo = 2, memo_index = (Some 0, JStr ''logs''),
      handlers = []\<rparr>"
  let ?s2 = "\<lparr>store = \<lparr>cells = [JStr ''logs''],
        objects = [[], [(''index'', 0)], [(''index'', 0)]]\<rparr>,
      current = Some 2,
      detail = \<lparr>formValue = None, hasEdit = False, destroyRef = False,
                 templateSimulateLoading = False, isMatchingTemplate = False\<rparr>,
      memo = 2, memo_index = (Some 0, JStr ''logs''),
      handlers = [(2, Delaying)]\<rparr>"
  let ?s3 = "\<lparr>store = \<lparr>cells = [JStr ''logs''],
        objects = [[], [(''index'', 0)], [(''index'', 0)]]\<rparr>,
      current = Some 2,
      detail = \<lparr>formValue = None, hasEdit = False, destroyRef = False,
                 templateSimulateLoading = True, isMatchingTemplate = False\<rparr>,
      memo = 2, memo_index = (Some 0, JStr ''logs''),
      handlers = [(2, Simulating (JStr ''logs''))]\<rparr>"
  let ?s4 = "\<lparr>store = \<lparr>cells = [JStr ''logs'', JStr ''logs'', JObj PlainObject [(''replicas'', JNum 2), (''shards'', JNum 3)], JObj PlainObject [(''properties'', toArray (JObj PlainObject []))]],
        objects = [[], [(''index'', 0)], [(''index'', 0)], [(''index'', 1), (''settings'', 2), (''mappings'', 3)]]\<rparr>,
      current = Some 3,
      detail = \<lparr>formValue = None, hasEdit = False, destroyRef = False,
                 templateSimulateLoading = False, isMatchingTemplate = True\<rparr>,
      memo = 2, memo_index = (Some 0, JStr ''logs''),
      handlers = [(2, Finished)]\<rparr>"
  let ?s5 = "\<lparr>store = \<lparr>cells = [JStr ''logs'', JStr ''logs'', JObj PlainObject [(''replicas'', JNum 1), (''shards'', JNum 3)], JObj PlainObject [(''properties'', toArray (JObj PlainObject []))]],
        objects = [[], [(''index'', 0)], [(''index'', 0)], [(''index'', 1), (''settings'', 2), (''mappings'', 3)], [(''index'', 1), (''settings'', 2), (''mappings'', 3)]]\<rparr>,
      current = Some 4,
      detail = \<lparr>formValue = None, hasEdit = True, destroyRef = False,
                 templateSimulateLoading = False, isMatchingTemplate = True\<rparr>,
      memo = 2, memo_index = (Some 0, JStr ''logs''),
      handlers = [(2, Finished)]\<rparr>"
  let ?s6 = "\<lparr>store = \<lparr>cells = [JStr ''logs'', JStr ''logs'', JObj PlainObject [(''replicas'', JNum 1), (''shards'', JNum 3)], JObj PlainObject [(''properties'', toArray (JObj PlainObject []))], JObj PlainObject [(''mine'', JObj PlainObject [])]],
        objects = [[], [(''index'', 0)], [(''index'', 0)], [(''index'', 1), (''settings'', 2), (''mappings'', 3)], [(''index'', 1), (''settings'', 2), (''mappings'', 3), (''aliases'', 4)], [(''index'', 1), (''settings'', 2), (''mappings'', 3), (''aliases'', 4)]]\<rparr>,
      current = Some 5,
      detail = \<lparr>formValue = None, hasEdit = True, destroyRef = False,
                 templateSimulateLoading = False, isMatchingTemplate = True\<rparr>,
      memo = 2, memo_index = (Some 0, JStr ''logs''),
      handlers = [(2, Finished)]\<rparr>"
  let ?s7 = "\<lparr>store = \<lparr>cells = [JStr ''logs'', JStr ''logs'', JObj PlainObject [(''replicas'', JNum 1), (''shards'', JNum 3)], JObj PlainObject [(''properties'', toArray (JObj PlainObject []))], JObj PlainObject [(''mine'', JObj PlainObject [])]],
        objects = [[], [(''index'', 0)], [(''index'', 0)], [(''index'', 1), (''settings'', 2), (''mappings'', 3)], [(''index'', 1), (''settings'', 2), (''mappings'', 3), (''aliases'', 4)], [(''index'', 1), (''settings'', 2), (''mappings'', 3), (''aliases'', 4)]]\<rparr>,
      current = Some 5,
      detail = \<lparr>formValue = None, hasEdit = True, destroyRef = False,
                 templateSimulateLoading = False, isMatchingTemplate = True\<rparr>,
      memo = 2, memo_index = (Some 0, JStr ''logs''),
      handlers = [(2, Finished), (2, Delaying)]\<rparr>"
  let ?s8 = "\<lparr>store = \<lparr>cells = [JStr ''logs'', JStr ''logs'', JObj PlainObject [(''replicas'', JNum 1), (''shards'', JNum 3)], JObj PlainObject [(''properties'', toArray (JObj PlainObject []))], JObj PlainObject [(''mine'', JObj PlainObject [])]],
        objects = [[], [(''index'', 0)], [(''index'', 0)], [(''index'', 1), (''settings'', 2), (''mappings'', 3)], [(''index'', 1), (''settings'', 2), (''mappings'', 3), (''aliases'', 4)], [(''index'', 1), (''settings'', 2), (''mappings'', 3), (''aliases'', 4)]]\<rparr>,
      current = Some 5,
      detail = \<lparr>formValue = None, hasEdit = True, destroyRef = False,
                 templateSimulateLoading = True, isMatchingTemplate = True\<rparr>,
      memo = 2, memo_index = (Some 0, JStr ''logs''),
      handlers = [(2, Finished), (2, Simulating (JStr ''logs''))]\<rparr>"
  let ?s9 = "\<lparr>store = \<lparr>cells = [JStr ''logs'', JStr ''logs'', JObj PlainObject [(''replicas'', JNum 1), (''shards'', JNum 3)], JObj PlainObject [(''properties'', toArray (JObj PlainObject []))], JObj PlainObject [(''mine'', JObj PlainObject [])]],
        objects = [[], [(''index'', 0)], [(''index'', 0)], [(''index'', 1), (''settings'', 2), (''mappings'', 3)], [(''index'', 1), (''settings'', 2), (''mappings'', 3), (''aliases'', 4)], [(''index'', 1), (''settings'', 2), (''mappings'', 3), (''aliases'', 4)]]\<rparr>,
      current = Some 5,
      detail = \<lparr>formValue = None, hasEdit = True, destroyRef = False,
                 templateSimulateLoading = False, isMatchingTemplate = True\<rparr>,
      memo = 2, memo_index = (Some 0, JStr ''logs''),
      handlers = [(2, Finished), (2, Confirming ?response)]\<rparr>"
  have idx: "\<not> is_array_index ''index''" "\<not> is_array_index ''settings''"
    "\<not> is_array_index ''mappings''" "\<not> is_array_index ''replicas''" "\<not> is_array_index ''shards''"
    "\<not> is_array_index ''properties''" "\<not> is_array_index ''aliases''" "\<not> is_array_index ''mine''"
    by (simp_all add: is_array_index_def is_digit_def)
  note ev = final_value_def new_object_def render_def index_of_def Object_is_def object_at_def
    cell_at_def contents_def change_def set_in_place_def spread_copy_def proceed_def delay_elapsed_def
    simulation_returned_def deliver_def as_record_def spread_into_def put_def get_own_def or_else_def
    isIndex_def idx
  have r0: "first_rendering None = ?s0"
    by (simp add: first_rendering_def ev)
  have r1: "?step (ControlReports [''index''] (JStr ''logs'')) ?s0 = ?s1"
    by (simp add: ev)
  have r2: "?step (IndexNameBlurs) ?s1 = ?s2"
    by (simp add: ev)
  have r3: "?step (DelayEnds 0) ?s2 = ?s3"
    by (simp add: ev)
  have r4: "?step (SimulationAnswers 0 (Resolved (Some (Ok ?response)))) ?s3 = ?s4"
    by (simp add: ev)
  have r5: "?step (ControlReports [''settings'', ''replicas''] (JNum 1)) ?s4 = ?s5"
    by (simp add: ev)
  have r6: "?step (ControlReports [''aliases''] (JObj PlainObject [(''mine'', JObj PlainObject [])])) ?s5 = ?s6"
    by (simp add: ev image_iff)
  have r7: "?step (IndexNameBlurs) ?s6 = ?s7"
    by (simp add: ev)
  have r8: "?step (DelayEnds 1) ?s7 = ?s8"
    by (simp add: ev)
  have r9: "?step (SimulationAnswers 1 (Resolved (Some (Ok ?response)))) ?s8 = ?s9"
    by (simp add: ev)
  have run: "session_run True True toObject toArray
         [ControlReports [''index''] (JStr ''logs''),
          IndexNameBlurs,
          DelayEnds 0,
          SimulationAnswers 0 (Resolved (Some (Ok ?response))),
          ControlReports [''settings'', ''replicas''] (JNum 1),
          ControlReports [''aliases''] (JObj PlainObject [(''mine'', JObj PlainObject [])]),
          IndexNameBlurs,
          DelayEnds 1,
          SimulationAnswers 1 (Resolved (Some (Ok ?response)))]
          (first_rendering None) = ?s9"
    by (simp only: session_run_def foldl.simps r0 r1 r2 r3 r4 r5 r6 r7 r8 r9)
  have merged: "mergedValue toObject [(''index'', JStr ''logs'')] ?response =
      JObj PlainObject
        [(''index'', JStr ''logs''),
         (''settings'', JObj PlainObject [(''replicas'', JNum 2), (''shards'', JNum 3)]),
         (''mappings'', JObj PlainObject
            [(''properties'', merge_value JUndefined (toObject (JObj ArrayObject [])))])]"
    by (simp add: mergedValue_def merge2_def formatValue_def assignMergeValue_empty assignMergeValue_defined
        merge_value_case spread_into_def put_def get_own_def or_else_def idx)
  have r10: "?step (PressMerge 1) ?s9 =
      ?s9\<lparr>store := \<lparr>cells = cells (store ?s9) @
                   [JStr ''logs'', JObj PlainObject [(''replicas'', JNum 2), (''shards'', JNum 3)],
                    JObj PlainObject [(''properties'', toArray (or_else (merge_value JUndefined (toObject (JObj ArrayObject []))) (JObj PlainObject [])))]],
                 objects = objects (store ?s9) @ [[(''index'', 5), (''settings'', 6), (''mappings'', 7)]]\<rparr>,
           current := Some 6,
           detail := \<lparr>formValue = None, hasEdit = False, destroyRef = False,
                      templateSimulateLoading = False, isMatchingTemplate = True\<rparr>,
           handlers := [(2, Finished), (2, Finished)]\<rparr>"
    by (simp add: confirm_cancel_def merged ev)
  have before: "draft ?s9 = Some
         [(''index'', JStr ''logs''),
          (''settings'', JObj PlainObject [(''replicas'', JNum 1), (''shards'', JNum 3)]),
          (''mappings'', JObj PlainObject [(''properties'', toArray (JObj PlainObject []))]),
          (''aliases'', JObj PlainObject [(''mine'', JObj PlainObject [])])]"
    "hasEdit (detail ?s9)" "map snd (handlers ?s9) = [Finished, Confirming ?response]"
    "contents (store ?s9) (memo ?s9) = [(''index'', JStr ''logs'')]"
    "contents (store ?s9) (fst (handlers ?s9 ! 1)) = [(''index'', JStr ''logs'')]"
    by (simp_all add: draft_def contents_def object_at_def cell_at_def)
  have after: "draft (?step (PressMerge 1) ?s9) = Some
         [(''index'', JStr ''logs''),
          (''settings'', JObj PlainObject [(''replicas'', JNum 2), (''shards'', JNum 3)]),
          (''mappings'', JObj PlainObject [(''properties'',
             toArray (or_else (merge_value JUndefined (toObject (JObj ArrayObject []))) (JObj PlainObject [])))])]"
    "\<not> hasEdit (detail (?step (PressMerge 1) ?s9))"
    unfolding r10 by (simp_all add: draft_def contents_def object_at_def cell_at_def)
  from before after show ?thesis
    unfolding Let_def run by (intro conjI)
qed

end
